theory Spec2Isabelle
  imports Complex_Main
begin

section \<open>Numbers, vectors and faults\<close>

text \<open>
  The grid of \<^verbatim>\<open>GEO/Grid.h\<close> works on \<^verbatim>\<open>double\<close> coordinates and
  \<^verbatim>\<open>size_t\<close> cell indices.

  \<^item> A \<^verbatim>\<open>double\<close> is a real number here: every operation is exact. Where IEEE
    arithmetic leaves the finite numbers (a division by zero, the root of a negative
    number) the run stops with \<open>NonFinite\<close>. Rounding is not modelled: where a value
    of the code lies next to a whole number (a coordinate next to a cell boundary, a ratio
    of extents next to a cell count), the cell or the count of the model can be one off
    from that of the code.
  \<^item> A \<^verbatim>\<open>size_t\<close> is a natural number below \<open>2 ^ 64\<close>; sums, products and
    differences wrap around (\<open>sz\<close>, \<open>sz_sub\<close>).
  \<^item> A \<^verbatim>\<open>double[3]\<close> or \<^verbatim>\<open>size_t[3]\<close> is a triple, axis 0 first.
  \<^item> A \<^verbatim>\<open>POINT*\<close> is the coordinate triple \<^verbatim>\<open>getData()\<close> gives for it; a
    \<^verbatim>\<open>std::vector<POINT*>\<close> is a list of them, so a point given twice is in the list
    twice.
  \<^item> A run ends in a \<open>fault\<close> where it is not followed further: where C++ leaves
    the behaviour undefined, which is converting a \<^verbatim>\<open>double\<close> outside the range of
    \<^verbatim>\<open>size_t\<close> (\<open>BadCast\<close>) and reading or writing an array or a vector at an
    index it does not have (\<open>OutOfBounds\<close>, with the index); where the arithmetic leaves the
    finite numbers (\<open>NonFinite\<close>); and where the box has no point (\<open>EmptyBox\<close>, see
    below).
\<close>

type_synonym vec3 = "real \<times> real \<times> real"
type_synonym size3 = "nat \<times> nat \<times> nat"

datatype fault = EmptyBox | NonFinite | BadCast | OutOfBounds nat

definition fbind :: "fault + 'a \<Rightarrow> ('a \<Rightarrow> fault + 'b) \<Rightarrow> fault + 'b" where
  "fbind m f = (case m of Inl e \<Rightarrow> Inl e | Inr x \<Rightarrow> f x)"

definition sz :: "nat \<Rightarrow> nat" where
  "sz n = n mod 2 ^ 64"

definition sz_sub :: "nat \<Rightarrow> nat \<Rightarrow> nat" where
  "sz_sub a b = (a + 2 ^ 64 - b) mod 2 ^ 64"

text \<open>\<^verbatim>\<open>static_cast<size_t>(x)\<close>: the fraction is dropped (towards zero).\<close>

definition to_size_t :: "real \<Rightarrow> fault + nat" where
  "to_size_t x = (if x \<le> - 1 \<or> 2 ^ 64 \<le> x then Inl BadCast else Inr (nat \<lfloor>x\<rfloor>))"

definition ceil_to_size_t :: "real \<Rightarrow> fault + nat" where
  "ceil_to_size_t x = to_size_t (of_int \<lceil>x\<rceil>)"

text \<open>\<^verbatim>\<open>std::numeric_limits<double>::epsilon()\<close>.\<close>

definition DBL_EPSILON :: real where
  "DBL_EPSILON = 1 / 2 ^ 52"

text \<open>
  Modelled from the spec: \<^verbatim>\<open>MathLib::sqrDist\<close> (MathTools.h is not among the sources),
  the squared Euclidean distance of two points.
\<close>

fun sqrDist :: "vec3 \<Rightarrow> vec3 \<Rightarrow> real" where
  "sqrDist (a0, a1, a2) (b0, b1, b2) =
     (a0 - b0) * (a0 - b0) + (a1 - b1) * (a1 - b1) + (a2 - b2) * (a2 - b2)"

section \<open>The bounding box\<close>

text \<open>
  Modelled from the spec: \<^verbatim>\<open>GEOLIB::AABB\<close> (AxisAlignedBoundingBox.h is not among
  the sources), the box that tracks the running minimum and maximum corner of the points
  given to \<^verbatim>\<open>update\<close>. The corners of a box that was given no point are set by
  \<^verbatim>\<open>AABB()\<close> and are not known here: \<open>EmptyBox\<close>.
\<close>

fun update :: "vec3 \<times> vec3 \<Rightarrow> vec3 \<Rightarrow> vec3 \<times> vec3" where
  "update ((a0, a1, a2), (b0, b1, b2)) (x, y, z) =
     ((min a0 x, min a1 y, min a2 z), (max b0 x, max b1 y, max b2 z))"

definition AABB :: "vec3 list \<Rightarrow> fault + vec3 \<times> vec3" where
  "AABB pnts = (case pnts of [] \<Rightarrow> Inl EmptyBox | p # ps \<Rightarrow> Inr (foldl update (p, p) ps))"

text \<open>
  A \<^verbatim>\<open>for\<close> loop over the elements of a list, with the loop's variables as the
  state; it stops at the first fault. \<^verbatim>\<open>for (c = a; c < b; c++)\<close> runs over
  \<open>[a..<b]\<close>: \<open>c\<close> stays below \<open>b\<close>, so it never wraps.
\<close>

primrec for_each :: "('a \<Rightarrow> 's \<Rightarrow> fault + 's) \<Rightarrow> 'a list \<Rightarrow> 's \<Rightarrow> fault + 's" where
  "for_each f [] s = Inr s"
| "for_each f (x # xs) s = fbind (f x s) (for_each f xs)"

section \<open>The grid and its constructor\<close>

record Grid =
  min_pnt :: vec3
  max_pnt :: vec3
  step_sizes :: vec3
  inverse_step_sizes :: vec3
  n_steps :: size3
  grid_quad_to_node_map :: "vec3 list list"

text \<open>
  Lines 155 to 165: the upper corner of one axis is moved up by a millionth of its size,
  and replaced by the stretched extent when it is then still below epsilon.
\<close>

definition inflate :: "real \<Rightarrow> real \<Rightarrow> real" where
  "inflate mn mx =
     (let mx1 = mx + \<bar>mx\<bar> * (1 / 10 ^ 6)
      in if \<bar>mx1\<bar> < DBL_EPSILON then (mx1 - mn) * (1 + 1 / 10 ^ 6) else mx1)"

definition degenerate :: "real \<Rightarrow> bool" where
  "degenerate d = (\<bar>d\<bar> < DBL_EPSILON)"

text \<open>The three formulas of lines 171 to 241 for a number of cells.\<close>

definition cells_1d :: "nat \<Rightarrow> nat \<Rightarrow> fault + nat" where
  "cells_1d n_pnts m =
     (if m = 0 then Inl NonFinite else ceil_to_size_t (real n_pnts / real m))"

definition cells_2d :: "nat \<Rightarrow> nat \<Rightarrow> real \<Rightarrow> real \<Rightarrow> fault + nat" where
  "cells_2d n_pnts m da db =
     (if real m * db = 0 \<or> real n_pnts * da / (real m * db) < 0 then Inl NonFinite
      else ceil_to_size_t (sqrt (real n_pnts * da / (real m * db))))"

definition cells_3d :: "nat \<Rightarrow> nat \<Rightarrow> real \<Rightarrow> real \<Rightarrow> real \<Rightarrow> fault + nat" where
  "cells_3d n_pnts m d0 d1 d2 =
     (if real m * d1 * d2 = 0 \<or> real n_pnts * d0 * d0 / (real m * d1 * d2) < 0
      then Inl NonFinite
      else ceil_to_size_t ((real n_pnts * d0 * d0 / (real m * d1 * d2)) powr (1 / 3)))"

definition cells_ratio :: "nat \<Rightarrow> real \<Rightarrow> real \<Rightarrow> fault + nat" where
  "cells_ratio n0 da d0 =
     (if d0 = 0 then Inl NonFinite else ceil_to_size_t (real n0 * da / d0))"

fun calc_n_steps :: "nat \<Rightarrow> nat \<Rightarrow> vec3 \<Rightarrow> fault + size3" where
  "calc_n_steps n_pnts m (d0, d1, d2) =
     (if degenerate d1 \<or> degenerate d2 then
        if degenerate d1 \<and> degenerate d2 then
          fbind (cells_1d n_pnts m) (\<lambda>c. Inr (c, 1, 1))
        else if degenerate d0 \<and> degenerate d2 then
          fbind (cells_1d n_pnts m) (\<lambda>c. Inr (1, c, 1))
        else if degenerate d0 \<and> degenerate d1 then
          fbind (cells_1d n_pnts m) (\<lambda>c. Inr (1, 1, c))
        else if degenerate d1 then
          fbind (cells_2d n_pnts m d0 d2) (\<lambda>n0.
          fbind (cells_ratio n0 d2 d0) (\<lambda>n2. Inr (n0, 1, n2)))
        else
          fbind (cells_2d n_pnts m d0 d1) (\<lambda>n0.
          fbind (cells_ratio n0 d1 d0) (\<lambda>n1. Inr (n0, n1, 1)))
      else
        fbind (cells_3d n_pnts m d0 d1 d2) (\<lambda>n0.
        fbind (cells_ratio n0 d1 d0) (\<lambda>n1.
        fbind (cells_ratio n0 d2 d0) (\<lambda>n2. Inr (n0, n1, n2)))))"

text \<open>Lines 247 to 254: the width of a cell on one axis, and its inverse.\<close>

definition step_size :: "real \<Rightarrow> nat \<Rightarrow> fault + real" where
  "step_size d n = (if n = 0 then Inl NonFinite else Inr (d / real n))"

definition inverse_step_size :: "real \<Rightarrow> real" where
  "inverse_step_size s = (if s = 0 then 1 else 1 / s)"

text \<open>
  Lines 257 to 275, the body of the filling loop for one point: its cell on each axis,
  the message when a cell is outside the grid, and the \<^verbatim>\<open>push_back\<close> at the flat
  index all the same. The state is what was written to \<^verbatim>\<open>std::cout\<close> so far, line
  by line, and the bucket array.
\<close>

definition cell_index :: "real \<Rightarrow> real \<Rightarrow> real \<Rightarrow> fault + nat" where
  "cell_index x mn iv = to_size_t ((x - mn) * iv)"

text \<open>
  The index of a cell in the bucket array, \<^verbatim>\<open>i + j * _n_steps[0] + k * n_plane\<close>
  with \<^verbatim>\<open>n_plane = _n_steps[0] * _n_steps[1]\<close>. Each operation wraps around, so the
  result is the exact value modulo \<open>2 ^ 64\<close>, in whatever order the source multiplies.
\<close>

fun flat_index :: "size3 \<Rightarrow> size3 \<Rightarrow> nat" where
  "flat_index (n0, n1, n2) (i, j, k) = sz (i + j * n0 + k * (n0 * n1))"

fun fill_pnt ::
  "vec3 \<Rightarrow> vec3 \<Rightarrow> size3 \<Rightarrow> string list \<times> vec3 list list \<Rightarrow> vec3 \<Rightarrow>
   fault + string list \<times> vec3 list list"
where
  "fill_pnt (m0, m1, m2) (v0, v1, v2) (n0, n1, n2) (cout, buckets) (x, y, z) =
     fbind (cell_index x m0 v0) (\<lambda>i.
     fbind (cell_index y m1 v1) (\<lambda>j.
     fbind (cell_index z m2 v2) (\<lambda>k.
       let cout' = (if i \<ge> n0 \<or> j \<ge> n1 \<or> k \<ge> n2
                    then cout @ [''error computing indices ''] else cout);
           idx = flat_index (n0, n1, n2) (i, j, k)
       in if idx < length buckets
          then Inr (cout', buckets[idx := buckets ! idx @ [(x, y, z)]])
          else Inl (OutOfBounds idx))))"


text \<open>
  The constructor. Its result is what it wrote to \<^verbatim>\<open>std::cout\<close> and the grid.
\<close>

definition Grid_cout :: "vec3 list \<Rightarrow> nat \<Rightarrow> fault + string list \<times> Grid" where
  "Grid_cout pnts max_num_per_grid_cell =
     fbind (AABB pnts) (\<lambda>(mn, mx).
       case (mn, mx) of ((a0, a1, a2), (b0, b1, b2)) \<Rightarrow>
       let mx' = (inflate a0 b0, inflate a1 b1, inflate a2 b2);
           delta = (inflate a0 b0 - a0, inflate a1 b1 - a1, inflate a2 b2 - a2)
       in fbind (calc_n_steps (length pnts) max_num_per_grid_cell delta) (\<lambda>(n0, n1, n2).
          case delta of (d0, d1, d2) \<Rightarrow>
          fbind (step_size d0 n0) (\<lambda>s0.
          fbind (step_size d1 n1) (\<lambda>s1.
          fbind (step_size d2 n2) (\<lambda>s2.
            let ivs = (inverse_step_size s0, inverse_step_size s1, inverse_step_size s2)
            in fbind (for_each (\<lambda>p s. fill_pnt mn ivs (n0, n1, n2) s p) pnts
                        ([], replicate (sz (n0 * n1 * n2)) []))
                 (\<lambda>(cout, buckets).
                    Inr (cout,
                      \<lparr>min_pnt = mn, max_pnt = mx', step_sizes = (s0, s1, s2),
                       inverse_step_sizes = ivs, n_steps = (n0, n1, n2),
                       grid_quad_to_node_map = buckets\<rparr>)))))))"

definition Grid :: "vec3 list \<Rightarrow> nat \<Rightarrow> fault + Grid" where
  "Grid pnts max_num_per_grid_cell =
     fbind (Grid_cout pnts max_num_per_grid_cell) (\<lambda>(cout, g). Inr g)"

section \<open>The queries\<close>

text \<open>Lines 523 to 545, one axis and all three.\<close>

definition getGridCoord :: "real \<Rightarrow> real \<Rightarrow> real \<Rightarrow> real \<Rightarrow> nat \<Rightarrow> fault + nat" where
  "getGridCoord x mn mx iv n =
     (if x < mn then Inr 0
      else if x > mx then Inr (sz_sub n 1)
      else to_size_t ((x - mn) * iv))"

fun getGridCoords :: "Grid \<Rightarrow> vec3 \<Rightarrow> fault + size3" where
  "getGridCoords g (x, y, z) =
     (case (min_pnt g, max_pnt g, inverse_step_sizes g, n_steps g) of
        ((a0, a1, a2), (b0, b1, b2), (v0, v1, v2), (n0, n1, n2)) \<Rightarrow>
          fbind (getGridCoord x a0 b0 v0 n0) (\<lambda>i.
          fbind (getGridCoord y a1 b1 v1 n1) (\<lambda>j.
          fbind (getGridCoord z a2 b2 v2 n2) (\<lambda>k. Inr (i, j, k)))))"

text \<open>
  Lines 547 to 572. \<open>None\<close> is the result \<^verbatim>\<open>false\<close> (the two outputs are left as
  they were), \<open>Some (sqr_min_dist, nearest_pnt)\<close> the result \<^verbatim>\<open>true\<close> with the two
  outputs.
\<close>

definition nearer :: "vec3 \<Rightarrow> real \<times> vec3 \<Rightarrow> vec3 \<Rightarrow> real \<times> vec3" where
  "nearer pnt best p =
     (if sqrDist p pnt < fst best then (sqrDist p pnt, p) else best)"

definition calcNearestPointInGridCell ::
  "Grid \<Rightarrow> vec3 \<Rightarrow> size3 \<Rightarrow> fault + (real \<times> vec3) option"
where
  "calcNearestPointInGridCell g pnt coords =
     (let grid_idx = flat_index (n_steps g) coords
      in if grid_idx < length (grid_quad_to_node_map g) then
           case grid_quad_to_node_map g ! grid_idx of
             [] \<Rightarrow> Inr None
           | p # ps \<Rightarrow> Inr (Some (foldl (nearer pnt) (sqrDist p pnt, p) ps))
         else Inl (OutOfBounds grid_idx))"

text \<open>
  Lines 574 to 587. The six values are \<^verbatim>\<open>dists[0]\<close> to \<^verbatim>\<open>dists[5]\<close>, in this
  order: bottom, front, right, back, left, top.
\<close>

type_synonym dists6 = "real \<times> real \<times> real \<times> real \<times> real \<times> real"

fun getPointCellBorderDistances :: "Grid \<Rightarrow> vec3 \<Rightarrow> size3 \<Rightarrow> dists6" where
  "getPointCellBorderDistances g (x, y, z) (c0, c1, c2) =
     (case (min_pnt g, step_sizes g) of ((a0, a1, a2), (s0, s1, s2)) \<Rightarrow>
        let d0 = z - a2 + real c2 * s2;
            d5 = s2 - d0;
            d1 = y - a1 + real c1 * s1;
            d3 = s1 - d1;
            d4 = x - a0 + real c0 * s0;
            d2 = s0 - d4
        in (d0, d1, d2, d3, d4, d5))"

text \<open>
  Lines 379 to 419. The output vector \<^verbatim>\<open>pnts\<close> comes in with what the caller has
  in it and is returned with what the loops pushed.
\<close>

definition copy_bucket :: "Grid \<Rightarrow> size3 \<Rightarrow> vec3 list \<Rightarrow> fault + vec3 list" where
  "copy_bucket g coords pnts =
     (let idx = flat_index (n_steps g) coords
      in if idx < length (grid_quad_to_node_map g)
         then Inr (pnts @ grid_quad_to_node_map g ! idx)
         else Inl (OutOfBounds idx))"

fun getPointsWithinCube :: "Grid \<Rightarrow> vec3 \<Rightarrow> real \<Rightarrow> vec3 list \<Rightarrow> fault + vec3 list" where
  "getPointsWithinCube g (x, y, z) half_len pnts =
     fbind (getGridCoords g (x - half_len, y - half_len, z - half_len)) (\<lambda>(l0, l1, l2).
     fbind (getGridCoords g (x + half_len, y + half_len, z + half_len)) (\<lambda>(u0, u1, u2).
       for_each (\<lambda>i.
         for_each (\<lambda>j.
           for_each (\<lambda>k. copy_bucket g (i, j, k)) [l2..<sz (u2 + 1)])
           [l1..<sz (u1 + 1)])
         [l0..<sz (u0 + 1)] pnts))"

text \<open>
  Lines 313 to 357, the search in the cells around the cell \<^verbatim>\<open>coords\<close>. The state
  is \<^verbatim>\<open>sqr_min_dist\<close> and \<^verbatim>\<open>nearest_pnt\<close> (\<open>None\<close> for \<^verbatim>\<open>NULL\<close>).
  \<open>ring_cell\<close> is the body of the innermost loop, \<open>ring_pass\<close> the three loops for
  one \<^verbatim>\<open>offset\<close>, \<open>ring_search\<close> the \<^verbatim>\<open>while\<close> loop, which has no result
  (\<open>None\<close>) when it never ends.
\<close>

fun ring_cell ::
  "Grid \<Rightarrow> vec3 \<Rightarrow> size3 \<Rightarrow> size3 \<Rightarrow> real \<times> vec3 option \<Rightarrow> fault + real \<times> vec3 option"
where
  "ring_cell g pnt coords (t0, t1, t2) (sqr_min_dist, nearest_pnt) =
     (if (t0, t1, t2) \<noteq> coords then
        case n_steps g of (n0, n1, n2) \<Rightarrow>
          if t0 < n0 \<and> t1 < n1 \<and> t2 < n2 then
            fbind (calcNearestPointInGridCell g pnt (t0, t1, t2)) (\<lambda>r.
              case r of
                None \<Rightarrow> Inr (sqr_min_dist, nearest_pnt)
              | Some (sqr_min_dist_tmp, nearest_pnt_tmp) \<Rightarrow>
                  if sqr_min_dist_tmp < sqr_min_dist
                  then Inr (sqr_min_dist_tmp, Some nearest_pnt_tmp)
                  else Inr (sqr_min_dist, nearest_pnt))
          else Inr (sqr_min_dist, nearest_pnt)
      else Inr (sqr_min_dist, nearest_pnt))"

fun ring_pass ::
  "Grid \<Rightarrow> vec3 \<Rightarrow> size3 \<Rightarrow> nat \<Rightarrow> real \<times> vec3 option \<Rightarrow> fault + real \<times> vec3 option"
where
  "ring_pass g pnt (c0, c1, c2) offset st =
     for_each (\<lambda>i.
       for_each (\<lambda>j.
         for_each (\<lambda>k. ring_cell g pnt (c0, c1, c2) (i, j, k))
           [sz_sub c2 offset..<sz (c2 + offset)])
         [sz_sub c1 offset..<sz (c1 + offset)])
       [sz_sub c0 offset..<sz (c0 + offset)] st"

partial_function (option) ring_search ::
  "Grid \<Rightarrow> vec3 \<Rightarrow> size3 \<Rightarrow> nat \<Rightarrow> real \<times> vec3 option \<Rightarrow> (fault + real \<times> vec3) option"
where
  "ring_search g pnt coords offset st =
     (case snd st of
        Some nearest_pnt \<Rightarrow> Some (Inr (fst st, nearest_pnt))
      | None \<Rightarrow>
          (case ring_pass g pnt coords offset st of
             Inl e \<Rightarrow> Some (Inl e)
           | Inr st' \<Rightarrow> ring_search g pnt coords (sz (offset + 1)) st'))"

text \<open>
  Lines 360 to 376: the points of the cells that meet the cube around \<^verbatim>\<open>pnt\<close> through
  the point found so far are searched for a nearer one.
\<close>

definition nearer_in_cube :: "vec3 \<Rightarrow> real \<times> vec3 \<Rightarrow> vec3 \<Rightarrow> real \<times> vec3" where
  "nearer_in_cube pnt best p =
     (if sqrDist pnt p < fst best then (sqrDist pnt p, p) else best)"

definition search_cube :: "Grid \<Rightarrow> vec3 \<Rightarrow> real \<Rightarrow> vec3 \<Rightarrow> fault + vec3" where
  "search_cube g pnt sqr_min_dist nearest_pnt =
     (let len = sqrt (sqrDist pnt nearest_pnt)
      in fbind (getPointsWithinCube g pnt len []) (\<lambda>pnts.
           Inr (snd (foldl (nearer_in_cube pnt) (sqr_min_dist, nearest_pnt) pnts))))"

text \<open>
  Lines 286 to 377. The result is \<open>None\<close> when the call never returns, and else the
  point returned or the fault the call ran into.
\<close>

definition getNearestPoint :: "Grid \<Rightarrow> vec3 \<Rightarrow> (fault + vec3) option" where
  "getNearestPoint g pnt =
     (case getGridCoords g pnt of
        Inl e \<Rightarrow> Some (Inl e)
      | Inr coords \<Rightarrow>
          (case calcNearestPointInGridCell g pnt coords of
             Inl e \<Rightarrow> Some (Inl e)
           | Inr (Some (sqr_min_dist, nearest_pnt)) \<Rightarrow>
               (case getPointCellBorderDistances g pnt coords of
                  (d0, d1, d2, d3, d4, d5) \<Rightarrow>
                    let min_dist = sqrt sqr_min_dist
                    in if d0 \<ge> min_dist \<and> d1 \<ge> min_dist \<and> d2 \<ge> min_dist \<and>
                          d3 \<ge> min_dist \<and> d4 \<ge> min_dist \<and> d5 \<ge> min_dist
                       then Some (Inr nearest_pnt)
                       else Some (search_cube g pnt sqr_min_dist nearest_pnt))
           | Inr None \<Rightarrow>
               (case ring_search g pnt coords 1 (sqrDist (min_pnt g) (max_pnt g), None) of
                  None \<Rightarrow> None
                | Some (Inl e) \<Rightarrow> Some (Inl e)
                | Some (Inr (sqr_min_dist, nearest_pnt)) \<Rightarrow>
                    Some (search_cube g pnt sqr_min_dist nearest_pnt))))"

section \<open>The queries on the memory\<close>

text \<open>
  The two public queries once more, as the statements of the source run on the memory of
  the program, so that what a query writes is part of what it returns. The memory holds the
  grid object, with the bucket array that its pointer \<^verbatim>\<open>_grid_quad_to_node_map\<close> leads
  to, and the \<^verbatim>\<open>std::vector<POINT*>\<close> objects outside the grid, by address. A
  reference to a vector is a bucket of the grid, by its index in the array, or a vector
  outside the grid, by its address. The buckets are private and no member function hands
  one out, so the vector a caller passes is one outside the grid.
\<close>

datatype vector_ref = Bucket nat | Vector nat

record memory =
  grid :: Grid
  vectors :: "vec3 list list"

text \<open>
  Reading the vector behind a reference, and \<^verbatim>\<open>push_back\<close> on it. Both go to the
  bucket array when the reference is a bucket.
\<close>

fun vector_at :: "vector_ref \<Rightarrow> memory \<Rightarrow> fault + vec3 list" where
  "vector_at (Bucket idx) m =
     (if idx < length (grid_quad_to_node_map (grid m))
      then Inr (grid_quad_to_node_map (grid m) ! idx)
      else Inl (OutOfBounds idx))"
| "vector_at (Vector a) m =
     (if a < length (vectors m) then Inr (vectors m ! a) else Inl (OutOfBounds a))"

fun push_back :: "vector_ref \<Rightarrow> vec3 \<Rightarrow> memory \<Rightarrow> fault + memory" where
  "push_back (Bucket idx) p m =
     (let buckets = grid_quad_to_node_map (grid m)
      in if idx < length buckets
         then Inr (m\<lparr>grid := (grid m)\<lparr>grid_quad_to_node_map :=
                      buckets[idx := buckets ! idx @ [p]]\<rparr>\<rparr>)
         else Inl (OutOfBounds idx))"
| "push_back (Vector a) p m =
     (if a < length (vectors m)
      then Inr (m\<lparr>vectors := (vectors m)[a := vectors m ! a @ [p]]\<rparr>)
      else Inl (OutOfBounds a))"

text \<open>
  Lines 405 to 415. \<open>copy_pnt\<close> is the body of the copying loop: element \<open>k\<close> of the
  bucket, read from the memory as it is then, is pushed to \<^verbatim>\<open>pnts\<close>.
  \<open>copy_bucket_mem\<close> reads the size of the bucket and runs the loop.
\<close>

definition copy_pnt :: "nat \<Rightarrow> vector_ref \<Rightarrow> nat \<Rightarrow> memory \<Rightarrow> fault + memory" where
  "copy_pnt idx pnts k m =
     fbind (vector_at (Bucket idx) m) (\<lambda>bucket.
       if k < length bucket then push_back pnts (bucket ! k) m
       else Inl (OutOfBounds k))"

definition copy_bucket_mem :: "size3 \<Rightarrow> vector_ref \<Rightarrow> memory \<Rightarrow> fault + memory" where
  "copy_bucket_mem coords pnts m =
     (let idx = flat_index (n_steps (grid m)) coords
      in fbind (vector_at (Bucket idx) m) (\<lambda>bucket.
           for_each (copy_pnt idx pnts) [0..<length bucket] m))"

text \<open>
  Lines 379 to 419. \<^verbatim>\<open>getGridCoords\<close> writes to the array it is given, here the local
  \<^verbatim>\<open>min_coords\<close> and \<^verbatim>\<open>max_coords\<close>, and reads the grid from the memory.
\<close>

fun getPointsWithinCube_mem ::
  "vec3 \<Rightarrow> real \<Rightarrow> vector_ref \<Rightarrow> memory \<Rightarrow> fault + memory"
where
  "getPointsWithinCube_mem (x, y, z) half_len pnts m =
     fbind (getGridCoords (grid m) (x - half_len, y - half_len, z - half_len))
       (\<lambda>(l0, l1, l2).
     fbind (getGridCoords (grid m) (x + half_len, y + half_len, z + half_len))
       (\<lambda>(u0, u1, u2).
       for_each (\<lambda>i.
         for_each (\<lambda>j.
           for_each (\<lambda>k. copy_bucket_mem (i, j, k) pnts) [l2..<sz (u2 + 1)])
           [l1..<sz (u1 + 1)])
         [l0..<sz (u0 + 1)] m))"

text \<open>
  Lines 360 to 376. The vector \<^verbatim>\<open>pnts\<close> that line 362 declares is put behind the last
  address, empty, and taken away again where its scope ends.
\<close>

definition search_cube_mem ::
  "vec3 \<Rightarrow> real \<Rightarrow> vec3 \<Rightarrow> memory \<Rightarrow> fault + vec3 \<times> memory"
where
  "search_cube_mem pnt sqr_min_dist nearest_pnt m =
     (let len = sqrt (sqrDist pnt nearest_pnt);
          a = length (vectors m);
          m1 = m\<lparr>vectors := vectors m @ [[]]\<rparr>
      in fbind (getPointsWithinCube_mem pnt len (Vector a) m1) (\<lambda>m2.
         fbind (vector_at (Vector a) m2) (\<lambda>pnts.
           Inr (snd (foldl (nearer_in_cube pnt) (sqr_min_dist, nearest_pnt) pnts),
                m2\<lparr>vectors := butlast (vectors m2)\<rparr>))))"

text \<open>
  Lines 286 to 377. Up to line 358 the statements assign to local variables only:
  \<^verbatim>\<open>getGridCoords\<close>, \<^verbatim>\<open>getPointCellBorderDistances\<close> and
  \<^verbatim>\<open>calcNearestPointInGridCell\<close> write to the arrays and references they are given,
  which are \<^verbatim>\<open>coords\<close>, \<^verbatim>\<open>dists\<close>, \<^verbatim>\<open>sqr_min_dist\<close>, \<^verbatim>\<open>nearest_pnt\<close> and the
  variables of the search around the cell, and each of these is written before it is read.
  The result is the point returned and the memory after the call.
\<close>

definition getNearestPoint_mem :: "vec3 \<Rightarrow> memory \<Rightarrow> (fault + vec3 \<times> memory) option" where
  "getNearestPoint_mem pnt m =
     (case getGridCoords (grid m) pnt of
        Inl e \<Rightarrow> Some (Inl e)
      | Inr coords \<Rightarrow>
          (case calcNearestPointInGridCell (grid m) pnt coords of
             Inl e \<Rightarrow> Some (Inl e)
           | Inr (Some (sqr_min_dist, nearest_pnt)) \<Rightarrow>
               (case getPointCellBorderDistances (grid m) pnt coords of
                  (d0, d1, d2, d3, d4, d5) \<Rightarrow>
                    let min_dist = sqrt sqr_min_dist
                    in if d0 \<ge> min_dist \<and> d1 \<ge> min_dist \<and> d2 \<ge> min_dist \<and>
                          d3 \<ge> min_dist \<and> d4 \<ge> min_dist \<and> d5 \<ge> min_dist
                       then Some (Inr (nearest_pnt, m))
                       else Some (search_cube_mem pnt sqr_min_dist nearest_pnt m))
           | Inr None \<Rightarrow>
               (case ring_search (grid m) pnt coords 1
                       (sqrDist (min_pnt (grid m)) (max_pnt (grid m)), None) of
                  None \<Rightarrow> None
                | Some (Inl e) \<Rightarrow> Some (Inl e)
                | Some (Inr (sqr_min_dist, nearest_pnt)) \<Rightarrow>
                    Some (search_cube_mem pnt sqr_min_dist nearest_pnt m))))"

section \<open>What the claims are measured against\<close>

text \<open>
  The test of line 267 for one point: the cell the constructor computes for it is outside
  the grid on some axis.
\<close>

fun outside :: "vec3 \<Rightarrow> vec3 \<Rightarrow> size3 \<Rightarrow> vec3 \<Rightarrow> bool" where
  "outside (m0, m1, m2) (v0, v1, v2) (n0, n1, n2) (x, y, z) =
     (case (cell_index x m0 v0, cell_index y m1 v1, cell_index z m2 v2) of
        (Inr i, Inr j, Inr k) \<Rightarrow> i \<ge> n0 \<or> j \<ge> n1 \<or> k \<ge> n2
      | _ \<Rightarrow> False)"

text \<open>
  Points on a line along one axis: the other two coordinates are the constants \<open>c\<close>
  and \<open>d\<close>, in the order of the axes. \<open>along k n\<close> is the cell count with \<open>n\<close> cells
  on axis \<open>k\<close> and one cell on the other two, and \<open>extent k g\<close> the width of the grid's
  box on axis \<open>k\<close>.
\<close>

datatype axis = Axis0 | Axis1 | Axis2

fun on_line :: "axis \<Rightarrow> real \<Rightarrow> real \<Rightarrow> vec3 \<Rightarrow> bool" where
  "on_line Axis0 c d (x, y, z) = (y = c \<and> z = d)"
| "on_line Axis1 c d (x, y, z) = (x = c \<and> z = d)"
| "on_line Axis2 c d (x, y, z) = (x = c \<and> y = d)"

text \<open>
  An axis on which every point has the coordinate \<open>c\<close> has the box from \<open>c\<close> to
  \<open>c\<close>. \<open>flat c\<close> says that the constructor finds this axis without extent: after the
  inflation of lines 159 to 164 the extent is below epsilon, the test of lines 171 to 198.
\<close>

definition flat :: "real \<Rightarrow> bool" where
  "flat c = degenerate (inflate c c - c)"

fun along :: "axis \<Rightarrow> nat \<Rightarrow> size3" where
  "along Axis0 c = (c, 1, 1)"
| "along Axis1 c = (1, c, 1)"
| "along Axis2 c = (1, 1, c)"

fun extent :: "axis \<Rightarrow> Grid \<Rightarrow> real" where
  "extent Axis0 g = fst (max_pnt g) - fst (min_pnt g)"
| "extent Axis1 g = fst (snd (max_pnt g)) - fst (snd (min_pnt g))"
| "extent Axis2 g = snd (snd (max_pnt g)) - snd (snd (min_pnt g))"

text \<open>
  The claim's words on \<^verbatim>\<open>getPointCellBorderDistances\<close>: the perpendicular distances
  from the point to the six planes that bound the cell \<open>coords\<close>. On axis \<open>k\<close> the
  lower plane is at \<open>min_pnt[k] + coords[k] * step[k]\<close> and the upper plane one step
  above it. The order is that of \<^verbatim>\<open>dists\<close>: bottom, front, right, back, left, top.
\<close>

fun cell_plane_distances :: "Grid \<Rightarrow> vec3 \<Rightarrow> size3 \<Rightarrow> dists6" where
  "cell_plane_distances g (x, y, z) (c0, c1, c2) =
     (case (min_pnt g, step_sizes g) of ((a0, a1, a2), (s0, s1, s2)) \<Rightarrow>
        (\<bar>z - (a2 + real c2 * s2)\<bar>,
         \<bar>y - (a1 + real c1 * s1)\<bar>,
         \<bar>x - (a0 + real c0 * s0 + s0)\<bar>,
         \<bar>y - (a1 + real c1 * s1 + s1)\<bar>,
         \<bar>x - (a0 + real c0 * s0)\<bar>,
         \<bar>z - (a2 + real c2 * s2 + s2)\<bar>))"

text \<open>
  What the queries rely on. On every axis the box is divided into the cells (\<open>axis_ok\<close>),
  every point of the input is inside the box and in the bucket of the cell the constructor
  computes for it (\<open>stored\<close>), the buckets hold points of the input only, and the
  number of cells is below the range of \<^verbatim>\<open>size_t\<close> (\<open>well_formed\<close>). \<open>below\<close> says
  that a point is not above a corner, and \<open>candidate\<close> that the point the search around
  an empty cell has found so far, if any, is a point of the input with its squared
  distance from the query.
\<close>

definition axis_ok :: "real \<Rightarrow> real \<Rightarrow> real \<Rightarrow> real \<Rightarrow> nat \<Rightarrow> bool" where
  "axis_ok a b s v n \<longleftrightarrow> 0 < n \<and> 0 \<le> s \<and> b - a = real n * s \<and> v = inverse_step_size s"

fun stored :: "Grid \<Rightarrow> vec3 \<Rightarrow> bool" where
  "stored g (x, y, z) =
     (case (min_pnt g, max_pnt g, inverse_step_sizes g, n_steps g) of
        ((a0, a1, a2), (b0, b1, b2), (v0, v1, v2), (n0, n1, n2)) \<Rightarrow>
          a0 \<le> x \<and> x \<le> b0 \<and> a1 \<le> y \<and> y \<le> b1 \<and> a2 \<le> z \<and> z \<le> b2 \<and>
          (\<exists>i j k. i < n0 \<and> j < n1 \<and> k < n2 \<and>
             cell_index x a0 v0 = Inr i \<and> cell_index y a1 v1 = Inr j \<and>
             cell_index z a2 v2 = Inr k \<and>
             (x, y, z) \<in> set (grid_quad_to_node_map g ! flat_index (n0, n1, n2) (i, j, k))))"

definition well_formed :: "Grid \<Rightarrow> vec3 list \<Rightarrow> bool" where
  "well_formed g pnts =
     (case (min_pnt g, max_pnt g, step_sizes g, inverse_step_sizes g, n_steps g) of
        ((a0, a1, a2), (b0, b1, b2), (s0, s1, s2), (v0, v1, v2), (n0, n1, n2)) \<Rightarrow>
          axis_ok a0 b0 s0 v0 n0 \<and> axis_ok a1 b1 s1 v1 n1 \<and> axis_ok a2 b2 s2 v2 n2 \<and>
          n0 * n1 * n2 + 1 < 2 ^ 64 \<and>
          length (grid_quad_to_node_map g) = n0 * n1 * n2 \<and>
          list_all (stored g) pnts \<and>
          list_all (\<lambda>b. list_all (\<lambda>p. p \<in> set pnts) b) (grid_quad_to_node_map g))"

fun below :: "vec3 \<Rightarrow> vec3 \<Rightarrow> bool" where
  "below (b0, b1, b2) (x, y, z) \<longleftrightarrow> x \<le> b0 \<and> y \<le> b1 \<and> z \<le> b2"

definition candidate :: "vec3 list \<Rightarrow> vec3 \<Rightarrow> real \<times> vec3 option \<Rightarrow> bool" where
  "candidate pnts q st =
     (case snd st of None \<Rightarrow> True | Some p \<Rightarrow> p \<in> set pnts \<and> fst st = sqrDist p q)"

section \<open>Seven grids\<close>

text \<open>
  \<open>line_x\<close> is the grid of the points 0, 1 and 8 on axis 0 with one point per cell,
  \<open>line_z\<close> the same on axis 2. Both have three cells, the middle one empty.
\<close>

definition line_x :: Grid where
  "line_x =
     \<lparr>min_pnt = (0, 0, 0), max_pnt = (1000001 / 125000, 0, 0),
      step_sizes = (1000001 / 375000, 0, 0),
      inverse_step_sizes = (375000 / 1000001, 1, 1),
      n_steps = (3, 1, 1),
      grid_quad_to_node_map = [[(0, 0, 0), (1, 0, 0)], [], [(8, 0, 0)]]\<rparr>"

definition line_z :: Grid where
  "line_z =
     \<lparr>min_pnt = (0, 0, 0), max_pnt = (0, 0, 1000001 / 125000),
      step_sizes = (0, 0, 1000001 / 375000),
      inverse_step_sizes = (1, 1, 375000 / 1000001),
      n_steps = (1, 1, 3),
      grid_quad_to_node_map = [[(0, 0, 0), (0, 0, 1)], [], [(0, 0, 8)]]\<rparr>"

text \<open>
  \<open>skew\<close> is the grid of two points whose coordinates on axis 0 are \<open>2\<^sup>-\<^sup>5\<^sup>7\<close> and ten
  times that, both below epsilon: the upper corner of axis 0 is replaced by the stretched
  extent, which is below the larger coordinate.
\<close>

definition skew :: Grid where
  "skew =
     \<lparr>min_pnt = (1 / 2 ^ 57, 0, 0),
      max_pnt = (900001900001 / (10 ^ 11 * 2 ^ 57), 1000001 / 1000000, 0),
      step_sizes = (800001900001 / (10 ^ 11 * 2 ^ 57), 1000001 / 2000000, 0),
      inverse_step_sizes = (10 ^ 11 * 2 ^ 57 / 800001900001, 2000000 / 1000001, 1),
      n_steps = (1, 2, 1),
      grid_quad_to_node_map = [[], [(1 / 2 ^ 57, 1, 0), (10 / 2 ^ 57, 0, 0)]]\<rparr>"

text \<open>
  \<open>far_line\<close> is the grid of two points on a line along axis 0, at a million on the
  other two axes, with one point per cell.
\<close>

definition far_line :: Grid where
  "far_line =
     \<lparr>min_pnt = (0, 10 ^ 6, 10 ^ 6),
      max_pnt = (1000001 / 1000000, 1000001, 1000001),
      step_sizes = (1000001 / 2000000, 1 / 2, 1 / 2),
      inverse_step_sizes = (2000000 / 1000001, 2, 2),
      n_steps = (2, 2, 2),
      grid_quad_to_node_map =
        [[(0, 10 ^ 6, 10 ^ 6)], [(1, 10 ^ 6, 10 ^ 6)], [], [], [], [], [], []]\<rparr>"

text \<open>
  \<open>short_line\<close> is the grid of two points on axis 1 that are \<open>2\<^sup>-\<^sup>5\<^sup>7\<close> apart, with
  one point per cell.
\<close>

definition short_line :: Grid where
  "short_line =
     \<lparr>min_pnt = (0, 0, 0),
      max_pnt = (0, 1000002000001 / (10 ^ 12 * 2 ^ 57), 0),
      step_sizes = (0, 1000002000001 / (10 ^ 12 * 2 ^ 57), 0),
      inverse_step_sizes = (1, 10 ^ 12 * 2 ^ 57 / 1000002000001, 1),
      n_steps = (2, 1, 1),
      grid_quad_to_node_map = [[(0, 0, 0), (0, 1 / 2 ^ 57, 0)], []]\<rparr>"

text \<open>
  \<open>near_line\<close> is the grid of two points on a line along axis 1, at \<open>10\<^sup>-\<^sup>1\<^sup>2\<close> on the
  other two axes, with one point per cell.
\<close>

definition near_line :: Grid where
  "near_line =
     \<lparr>min_pnt = (1 / 10 ^ 12, 0, 1 / 10 ^ 12),
      max_pnt = (1000001 / 10 ^ 18, 1000001 / 1000000, 1000001 / 10 ^ 18),
      step_sizes = (1 / 10 ^ 18, 1000001 / 2000000, 1 / 10 ^ 18),
      inverse_step_sizes = (10 ^ 18, 2000000 / 1000001, 10 ^ 18),
      n_steps = (1, 2, 1),
      grid_quad_to_node_map =
        [[(1 / 10 ^ 12, 0, 1 / 10 ^ 12)], [(1 / 10 ^ 12, 1, 1 / 10 ^ 12)]]\<rparr>"

section \<open>Evaluating the constructor and the queries\<close>

lemmas ctor_defs = Grid_def Grid_cout_def AABB_def fbind_def inflate_def DBL_EPSILON_def
  degenerate_def cells_1d_def ceil_to_size_t_def to_size_t_def step_size_def
  inverse_step_size_def cell_index_def sz_def Let_def

lemmas query_defs = getGridCoord_def fbind_def to_size_t_def sz_def sz_sub_def
  copy_bucket_def calcNearestPointInGridCell_def nearer_def Let_def

lemma replicate_2: "replicate 2 x = [x, x]"
  by (simp add: numeral_2_eq_2)

lemma replicate_3: "replicate 3 x = [x, x, x]"
  by (simp add: numeral_3_eq_3)

lemma ceiling_1_256: "\<lceil>1 / 256 :: real\<rceil> = 1"
  by (simp add: ceiling_eq_iff)

lemma Grid_line_x: "Grid [(0, 0, 0), (1, 0, 0), (8, 0, 0)] 1 = Inr line_x"
  by (simp add: ctor_defs line_x_def replicate_3)

lemma Grid_line_z: "Grid [(0, 0, 0), (0, 0, 1), (0, 0, 8)] 1 = Inr line_z"
  by (simp add: ctor_defs line_z_def replicate_3)

lemma Grid_cout_skew:
  "Grid_cout [(1 / 2 ^ 57, 1, 0), (10 / 2 ^ 57, 0, 0)] 1 =
     Inr ([''error computing indices ''], skew)"
  by (simp add: ctor_defs skew_def replicate_2)

lemma Grid_skew: "Grid [(1 / 2 ^ 57, 1, 0), (10 / 2 ^ 57, 0, 0)] 1 = Inr skew"
  unfolding Grid_def Grid_cout_skew by (simp add: fbind_def)

lemma replicate_8: "replicate 8 x = [x, x, x, x, x, x, x, x]"
  by (simp add: eval_nat_numeral)

lemma cube_root_ceiling:
  fixes x :: real
  assumes "1 < x" "x < 8"
  shows "\<lceil>x powr (1 / 3)\<rceil> = 2"
proof -
  have "(8::real) = 2 powr 3"
    by simp
  then have eight: "(8::real) powr (1 / 3) = 2"
    by (simp only: powr_powr) simp
  have "x powr (1 / 3) < 8 powr (1 / 3)"
    using assms by (intro powr_less_mono2) auto
  moreover have "1 powr (1 / 3) < x powr (1 / 3)"
    using assms by (intro powr_less_mono2) auto
  ultimately show ?thesis
    using eight by (simp add: ceiling_eq_iff)
qed

lemma cube_root_far_line: "\<lceil>(1000002000001 / 500000000000 :: real) powr (1 / 3)\<rceil> = 2"
  by (rule cube_root_ceiling) simp_all

lemma Grid_far_line: "Grid [(0, 10 ^ 6, 10 ^ 6), (1, 10 ^ 6, 10 ^ 6)] 1 = Inr far_line"
  by (simp add: ctor_defs cells_3d_def cells_ratio_def cube_root_far_line far_line_def
      replicate_8)

lemma Grid_short_line: "Grid [(0, 0, 0), (0, 1 / 2 ^ 57, 0)] 1 = Inr short_line"
  by (simp add: ctor_defs short_line_def replicate_2)

lemma Grid_near_line:
  "Grid [(1 / 10 ^ 12, 0, 1 / 10 ^ 12), (1 / 10 ^ 12, 1, 1 / 10 ^ 12)] 1 = Inr near_line"
  by (simp add: ctor_defs near_line_def replicate_2)

text \<open>
  Two queries on \<open>line_x\<close> that return: the cell of the query holds a point, and the
  cube around the query is searched.
\<close>

lemma getNearestPoint_line_x_7: "getNearestPoint line_x (7, 0, 0) = Some (Inr (8, 0, 0))"
  by (simp add: getNearestPoint_def search_cube_def nearer_in_cube_def line_x_def query_defs)

lemma getNearestPoint_line_x_2: "getNearestPoint line_x (2, 0, 0) = Some (Inr (1, 0, 0))"
  by (simp add: getNearestPoint_def search_cube_def nearer_in_cube_def line_x_def query_defs)

section \<open>What a construction that completes has done\<close>

lemma fill_pnt_cout:
  assumes "fill_pnt mn iv n (cout, b) p = Inr (cout', b')"
  shows "cout' = cout @ (if outside mn iv n p then [''error computing indices ''] else [])"
proof -
  obtain m0 m1 m2 v0 v1 v2 n0 n1 n2 x y z where
    "mn = (m0, m1, m2)" "iv = (v0, v1, v2)" "n = (n0, n1, n2)" "p = (x, y, z)"
    by (cases mn, cases iv, cases n, cases p) auto
  with assms show ?thesis
    by (auto simp: fbind_def Let_def split: sum.splits if_splits)
qed

lemma fill_cout:
  assumes "for_each (\<lambda>p s. fill_pnt mn iv n s p) ps (cout, b) = Inr (cout', b')"
  shows "cout' =
    cout @ replicate (length (filter (outside mn iv n) ps)) ''error computing indices ''"
  using assms
proof (induction ps arbitrary: cout b)
  case Nil
  then show ?case by simp
next
  case (Cons p ps)
  from Cons.prems obtain c1 b1 where
    step: "fill_pnt mn iv n (cout, b) p = Inr (c1, b1)"
    and rest: "for_each (\<lambda>p s. fill_pnt mn iv n s p) ps (c1, b1) = Inr (cout', b')"
    by (auto simp: fbind_def split: sum.splits)
  from fill_pnt_cout [OF step] Cons.IH [OF rest] show ?case
    by (simp add: replicate_app_Cons_same)
qed

lemma Grid_cout_fill:
  assumes "Grid_cout pnts m = Inr (cout, g)"
  obtains n where
    "for_each (\<lambda>p s. fill_pnt (min_pnt g) (inverse_step_sizes g) (n_steps g) s p) pnts
       ([], replicate n []) = Inr (cout, grid_quad_to_node_map g)"
  using assms
  by (auto simp: Grid_cout_def fbind_def Let_def split: sum.splits prod.splits)

text \<open>
  Every point is in one bucket of a grid whose construction completes: the sizes of the
  buckets add up to the number of points.
\<close>

lemma sum_length_update:
  assumes "idx < length b"
  shows "sum_list (map length (b[idx := b ! idx @ [p]])) = Suc (sum_list (map length b))"
proof -
  have "map length (b[idx := b ! idx @ [p]]) = (map length b)[idx := Suc (length (b ! idx))]"
    by (simp add: map_update)
  moreover have "sum_list ((map length b)[idx := Suc (length (b ! idx))]) =
      sum_list (map length b) + Suc (length (b ! idx)) - map length b ! idx"
    using assms by (intro sum_list_update) simp
  ultimately show ?thesis
    using assms by simp
qed

lemma fill_pnt_sizes:
  assumes "fill_pnt mn iv n (cout, b) p = Inr (cout', b')"
  shows "sum_list (map length b') = Suc (sum_list (map length b)) \<and> length b' = length b"
proof -
  obtain m0 m1 m2 v0 v1 v2 n0 n1 n2 x y z where
    "mn = (m0, m1, m2)" "iv = (v0, v1, v2)" "n = (n0, n1, n2)" "p = (x, y, z)"
    by (cases mn, cases iv, cases n, cases p) auto
  with assms show ?thesis
    by (auto simp: fbind_def Let_def sum_length_update split: sum.splits if_splits)
qed

lemma fill_sizes:
  assumes "for_each (\<lambda>p s. fill_pnt mn iv n s p) ps (cout, b) = Inr (cout', b')"
  shows "sum_list (map length b') = sum_list (map length b) + length ps"
  using assms
proof (induction ps arbitrary: cout b)
  case Nil
  then show ?case by simp
next
  case (Cons p ps)
  from Cons.prems obtain c1 b1 where
    step: "fill_pnt mn iv n (cout, b) p = Inr (c1, b1)"
    and rest: "for_each (\<lambda>p s. fill_pnt mn iv n s p) ps (c1, b1) = Inr (cout', b')"
    by (auto simp: fbind_def split: sum.splits)
  from fill_pnt_sizes [OF step] Cons.IH [OF rest] show ?case
    by simp
qed

lemma Grid_bucket_sizes:
  assumes "Grid pnts m = Inr g"
  shows "sum_list (map length (grid_quad_to_node_map g)) = length pnts"
proof -
  from assms obtain cout where "Grid_cout pnts m = Inr (cout, g)"
    by (auto simp: Grid_def fbind_def split: sum.splits)
  then obtain n where
    "for_each (\<lambda>p s. fill_pnt (min_pnt g) (inverse_step_sizes g) (n_steps g) s p) pnts
       ([], replicate n []) = Inr (cout, grid_quad_to_node_map g)"
    by (rule Grid_cout_fill)
  from fill_sizes [OF this] show ?thesis
    by simp
qed

text \<open>
  Points in the plane where axis 0 is zero, with an extent on both other axes: the extent
  of axis 0 is zero, the code takes the 3D formula, gets no cell on axis 0 and divides
  zero by zero for the other two.
\<close>

lemma calc_n_steps_plane_x:
  assumes "\<not> degenerate d1" "\<not> degenerate d2"
  shows "calc_n_steps n m (0, d1, d2) = Inl NonFinite"
  using assms
  by (simp add: cells_3d_def cells_ratio_def fbind_def ceil_to_size_t_def to_size_t_def)

lemma Grid_plane_x:
  assumes "AABB pnts = Inr ((0, a1, a2), (0, b1, b2))"
    and "\<not> degenerate (inflate a1 b1 - a1)" "\<not> degenerate (inflate a2 b2 - a2)"
  shows "Grid pnts m = Inl NonFinite"
proof -
  have "inflate 0 0 = 0"
    by (simp add: inflate_def DBL_EPSILON_def)
  then show ?thesis
    by (simp add: Grid_def Grid_cout_def assms(1) fbind_def Let_def
        calc_n_steps_plane_x [OF assms(2,3)] del: calc_n_steps.simps)
qed

lemma Grid_unit_square_x:
  "Grid [(0, 0, 0), (0, 1, 0), (0, 0, 1), (0, 1, 1)] m = Inl NonFinite"
proof (rule Grid_plane_x)
  show "AABB [(0, 0, 0), (0, 1, 0), (0, 0, 1), (0, 1, 1)] = Inr ((0, 0, 0), (0, 1, 1))"
    by (simp add: AABB_def)
qed (simp_all add: inflate_def degenerate_def DBL_EPSILON_def)

section \<open>The cell of a coordinate\<close>

lemma sz_sub_1:
  assumes "0 < n" "n < 2 ^ 64"
  shows "sz_sub n 1 = n - 1"
proof -
  have "n + 2 ^ 64 - 1 = (n - 1) + 2 ^ 64"
    using assms by simp
  then have "sz_sub n 1 = ((n - 1) + 2 ^ 64) mod 2 ^ 64"
    by (simp add: sz_sub_def)
  also have "\<dots> = (n - 1) mod 2 ^ 64"
    by simp
  also have "\<dots> = n - 1"
    using assms by simp
  finally show ?thesis .
qed

text \<open>
  On an axis with \<open>n\<close> cells between \<open>mn\<close> and \<open>mx\<close>, every coordinate but \<open>mx\<close>
  has one of the cells \<open>0\<close> to \<open>n - 1\<close>, and \<open>mx\<close> has the cell \<open>n\<close>. This is
  so in exact arithmetic. Rounded, the product of the offset and the inverse width can come
  out on the other side of a whole number, so that next to a cell boundary the cell of a
  \<^verbatim>\<open>double\<close> can be one off; the upper corner of \<open>line_x\<close>, which the claims below
  rest on, has the cell \<open>3\<close> either way.
\<close>

lemma getGridCoord_inside:
  assumes "0 < n" "n < 2 ^ 64" "mn < mx" "x \<noteq> mx"
  shows "\<exists>c<n. getGridCoord x mn mx (inverse_step_size ((mx - mn) / real n)) n = Inr c"
proof -
  consider "x < mn" | "mx < x" | "mn \<le> x" "x < mx"
    using assms(4) by linarith
  then show ?thesis
  proof cases
    case 1
    with assms(1) show ?thesis by (simp add: getGridCoord_def)
  next
    case 2
    moreover have "sz_sub n 1 = n - 1"
      using assms by (intro sz_sub_1)
    ultimately show ?thesis
      using assms by (simp add: getGridCoord_def)
  next
    case 3
    let ?t = "(x - mn) * (real n / (mx - mn))"
    have iv: "inverse_step_size ((mx - mn) / real n) = real n / (mx - mn)"
      using assms by (simp add: inverse_step_size_def)
    have "(x - mn) / (mx - mn) < 1"
      using 3 assms(3) by simp
    then have "(x - mn) / (mx - mn) * real n < 1 * real n"
      using assms(1) by (intro mult_strict_right_mono) simp_all
    then have lt: "?t < real n"
      by (simp add: mult.commute)
    have ge: "0 \<le> ?t"
      using 3 assms by simp
    from lt have "\<lfloor>?t\<rfloor> < int n"
      by (simp add: floor_less_iff)
    moreover have "0 \<le> \<lfloor>?t\<rfloor>"
      using ge by simp
    ultimately have c: "nat \<lfloor>?t\<rfloor> < n"
      by (simp only: nat_less_iff)
    have "real n < 2 ^ 64"
      using assms(2) by (metis of_nat_less_iff of_nat_numeral of_nat_power)
    with lt have "\<not> 2 ^ 64 \<le> ?t"
      by simp
    moreover have "\<not> ?t \<le> - 1"
      using ge by linarith
    ultimately have "to_size_t ?t = Inr (nat \<lfloor>?t\<rfloor>)"
      unfolding to_size_t_def by simp
    with c 3 show ?thesis
      unfolding getGridCoord_def iv by auto
  qed
qed

lemma getGridCoord_upper_corner:
  assumes "0 < n" "n < 2 ^ 64" "mn < mx"
  shows "getGridCoord mx mn mx (inverse_step_size ((mx - mn) / real n)) n = Inr n"
proof -
  have "inverse_step_size ((mx - mn) / real n) = real n / (mx - mn)"
    using assms by (simp add: inverse_step_size_def)
  moreover have "real n < 2 ^ 64"
    using assms(2) by (metis of_nat_less_iff of_nat_numeral of_nat_power)
  ultimately show ?thesis
    using assms by (simp add: getGridCoord_def to_size_t_def)
qed

section \<open>The search around an empty cell\<close>

lemma for_each_skip:
  "(\<And>x s. x \<in> set xs \<Longrightarrow> f x s = Inr s) \<Longrightarrow> for_each f xs s = Inr s"
  by (induction xs) (simp_all add: fbind_def)

text \<open>
  Around cell 0 of an axis the loop runs from \<open>0 - offset\<close>, which wraps around to
  \<open>2 ^ 64 - offset\<close>: it never visits cell 0.
\<close>

lemma ring_range_no_zero:
  assumes "offset < 2 ^ 64" "j \<in> set [sz_sub 0 offset..<sz (0 + offset)]"
  shows "1 \<le> j"
proof (cases "offset = 0")
  case True
  with assms show ?thesis by (simp add: sz_sub_def sz_def)
next
  case False
  with assms(1) have "sz_sub 0 offset = 2 ^ 64 - offset"
    by (simp add: sz_sub_def)
  with assms False show ?thesis by auto
qed

lemma ring_pass_flat_axis1:
  assumes "n_steps g = (n0, 1, n2)" "offset < 2 ^ 64"
  shows "ring_pass g pnt (c0, 0, c2) offset st = Inr st"
proof -
  have cell: "ring_cell g pnt (c0, 0, c2) (i, j, k) s = Inr s" if "1 \<le> j" for i j k s
    using that assms(1) by (cases s) auto
  have "for_each (\<lambda>j. for_each (\<lambda>k. ring_cell g pnt (c0, 0, c2) (i, j, k)) ks)
          [sz_sub 0 offset..<sz (0 + offset)] s = Inr s" for i ks s
    by (rule for_each_skip, rule for_each_skip, rule cell,
        rule ring_range_no_zero [OF assms(2)])
  then show ?thesis
    by (simp add: for_each_skip)
qed

lemma ring_search_no_result:
  assumes "ring_search g pnt coords offset st = Some y"
  shows "\<not> (snd (n_steps g) = (1, n2) \<and> fst (snd coords) = 0 \<and> offset < 2 ^ 64 \<and>
            snd st = None)"
  using assms
proof (induction g pnt coords offset st y rule: ring_search.raw_induct [rotated 1, consumes 1])
  case (1 ring_search g pnt coords offset st y)
  show ?case
  proof
    assume a: "snd (n_steps g) = (1, n2) \<and> fst (snd coords) = 0 \<and> offset < 2 ^ 64 \<and>
      snd st = None"
    obtain c0 c2 where c: "coords = (c0, 0, c2)"
      using a by (cases coords) auto
    obtain n0 where n: "n_steps g = (n0, 1, n2)"
      using a by (cases "n_steps g") auto
    have "ring_pass g pnt coords offset st = Inr st"
      unfolding c using n a by (intro ring_pass_flat_axis1) auto
    with 1(2) a have "ring_search g pnt coords (sz (offset + 1)) st = Some y"
      by simp
    moreover have "sz (offset + 1) < 2 ^ 64"
      by (simp add: sz_def)
    ultimately show False
      using 1(1) a by blast
  qed
qed

text \<open>
  On a grid with one cell on axis 1, the search around an empty cell never ends: no pass
  visits a cell of the grid.
\<close>

lemma ring_search_flat_axis1:
  assumes "n_steps g = (n0, 1, n2)" "offset < 2 ^ 64"
  shows "ring_search g pnt (c0, 0, c2) offset (d, None) = None"
proof (cases "ring_search g pnt (c0, 0, c2) offset (d, None)")
  case None
  then show ?thesis .
next
  case (Some y)
  from ring_search_no_result [OF Some, of n2] assms show ?thesis
    by simp
qed

lemma getNearestPoint_no_result:
  assumes "getGridCoords g pnt = Inr coords"
    and "calcNearestPointInGridCell g pnt coords = Inr None"
    and "ring_search g pnt coords 1 (sqrDist (min_pnt g) (max_pnt g), None) = None"
  shows "getNearestPoint g pnt = None"
  using assms by (simp add: getNearestPoint_def)

section \<open>The output vector of the cube query\<close>

lemma for_each_append:
  assumes "\<And>x s. f x s = fbind (f x []) (\<lambda>r. Inr (s @ r))"
  shows "for_each f xs s = fbind (for_each f xs []) (\<lambda>r. Inr (s @ r))"
proof (induction xs arbitrary: s)
  case Nil
  show ?case by (simp add: fbind_def)
next
  case (Cons x xs)
  have fx: "f x s = fbind (f x []) (\<lambda>r. Inr (s @ r))"
    by (rule assms)
  show ?case
  proof (cases "f x []")
    case (Inl e)
    with fx show ?thesis by (simp add: fbind_def)
  next
    case (Inr r)
    with fx have "f x s = Inr (s @ r)"
      by (simp add: fbind_def)
    then have "for_each f (x # xs) s = fbind (for_each f xs []) (\<lambda>q. Inr ((s @ r) @ q))"
      using Cons.IH [of "s @ r"] by (simp add: fbind_def)
    moreover have "for_each f (x # xs) [] = fbind (for_each f xs []) (\<lambda>q. Inr (r @ q))"
      using Inr Cons.IH [of r] by (simp add: fbind_def)
    ultimately show ?thesis
      by (simp add: fbind_def split: sum.splits)
  qed
qed

lemma copy_bucket_append:
  "copy_bucket g c s = fbind (copy_bucket g c []) (\<lambda>r. Inr (s @ r))"
  by (simp add: copy_bucket_def fbind_def Let_def)

lemma getPointsWithinCube_append:
  "getPointsWithinCube g pnt half_len pnts =
     fbind (getPointsWithinCube g pnt half_len []) (\<lambda>res. Inr (pnts @ res))"
proof -
  obtain x y z where pnt: "pnt = (x, y, z)"
    by (cases pnt) auto
  have loops:
    "for_each (\<lambda>i. for_each (\<lambda>j. for_each (\<lambda>k. copy_bucket g (i, j, k)) ks) js) is s =
       fbind (for_each (\<lambda>i. for_each (\<lambda>j. for_each (\<lambda>k. copy_bucket g (i, j, k)) ks) js) is [])
         (\<lambda>r. Inr (s @ r))" for ks js "is" s
    by (intro for_each_append copy_bucket_append)
  show ?thesis
    unfolding pnt getPointsWithinCube.simps
    by (subst loops) (simp add: fbind_def split: sum.splits prod.splits)
qed

section \<open>The cell counts of points on a line along an axis\<close>

lemma foldl_update_const0:
  assumes "\<forall>p\<in>set ps. fst p = c" "fst (fst box) = c" "fst (snd box) = c"
  shows "fst (fst (foldl update box ps)) = c \<and> fst (snd (foldl update box ps)) = c"
  using assms
proof (induction ps arbitrary: box)
  case Nil
  then show ?case by simp
next
  case (Cons p ps)
  obtain a0 a1 a2 b0 b1 b2 where box: "box = ((a0, a1, a2), (b0, b1, b2))"
    by (cases box) auto
  obtain x y z where p: "p = (x, y, z)"
    by (cases p) auto
  show ?case
    using Cons.prems by (simp add: box p) (rule Cons.IH, simp_all)
qed

lemma foldl_update_const1:
  assumes "\<forall>p\<in>set ps. fst (snd p) = c" "fst (snd (fst box)) = c" "fst (snd (snd box)) = c"
  shows "fst (snd (fst (foldl update box ps))) = c \<and>
         fst (snd (snd (foldl update box ps))) = c"
  using assms
proof (induction ps arbitrary: box)
  case Nil
  then show ?case by simp
next
  case (Cons p ps)
  obtain a0 a1 a2 b0 b1 b2 where box: "box = ((a0, a1, a2), (b0, b1, b2))"
    by (cases box) auto
  obtain x y z where p: "p = (x, y, z)"
    by (cases p) auto
  show ?case
    using Cons.prems by (simp add: box p) (rule Cons.IH, simp_all)
qed

lemma foldl_update_const2:
  assumes "\<forall>p\<in>set ps. snd (snd p) = c" "snd (snd (fst box)) = c" "snd (snd (snd box)) = c"
  shows "snd (snd (fst (foldl update box ps))) = c \<and>
         snd (snd (snd (foldl update box ps))) = c"
  using assms
proof (induction ps arbitrary: box)
  case Nil
  then show ?case by simp
next
  case (Cons p ps)
  obtain a0 a1 a2 b0 b1 b2 where box: "box = ((a0, a1, a2), (b0, b1, b2))"
    by (cases box) auto
  obtain x y z where p: "p = (x, y, z)"
    by (cases p) auto
  show ?case
    using Cons.prems by (simp add: box p) (rule Cons.IH, simp_all)
qed

lemma on_line_proj:
  "on_line Axis0 c d p \<longleftrightarrow> fst (snd p) = c \<and> snd (snd p) = d"
  "on_line Axis1 c d p \<longleftrightarrow> fst p = c \<and> snd (snd p) = d"
  "on_line Axis2 c d p \<longleftrightarrow> fst p = c \<and> fst (snd p) = d"
  by (cases p; simp)+

lemma Grid_Inr_fields:
  assumes "Grid pnts m = Inr g"
  obtains a0 a1 a2 b0 b1 b2 where
    "AABB pnts = Inr ((a0, a1, a2), (b0, b1, b2))"
    "min_pnt g = (a0, a1, a2)"
    "max_pnt g = (inflate a0 b0, inflate a1 b1, inflate a2 b2)"
    "calc_n_steps (length pnts) m (inflate a0 b0 - a0, inflate a1 b1 - a1, inflate a2 b2 - a2)
       = Inr (n_steps g)"
  using assms
  by (auto simp: Grid_def Grid_cout_def fbind_def Let_def split: sum.splits prod.splits)

text \<open>
  The constants that give a flat axis: of those that are not negative, the ones below a
  million times epsilon; none of a million times epsilon or more in size.
\<close>

lemma flat_nonneg:
  assumes "0 \<le> c"
  shows "flat c \<longleftrightarrow> c < 10 ^ 6 * DBL_EPSILON"
  using assms by (auto simp: flat_def degenerate_def inflate_def Let_def DBL_EPSILON_def abs_if
      field_simps split: if_splits)

lemma flat_large:
  assumes "10 ^ 6 * DBL_EPSILON \<le> \<bar>c\<bar>"
  shows "\<not> flat c"
  using assms by (auto simp: flat_def degenerate_def inflate_def Let_def DBL_EPSILON_def abs_if
      field_simps split: if_splits)

lemma cells_1d_Inr: "cells_1d n m = Inr c \<Longrightarrow> c = nat \<lceil>real n / real m\<rceil>"
  by (auto simp: cells_1d_def ceil_to_size_t_def to_size_t_def split: if_splits)

section \<open>Well-formed grids: the points found by the queries\<close>

text \<open>
  The lemmas of this section are about the grid of the model, whose arithmetic is exact. A
  cell computed in rounded arithmetic can be one off next to a cell boundary, so a grid
  built from \<^verbatim>\<open>double\<close> coordinates need not be well formed where the grid of the model
  is; no claim below rests on this section.

  The monotonicity of the cell of a coordinate.
\<close>

lemma inverse_step_size_nonneg: "0 \<le> s \<Longrightarrow> 0 \<le> inverse_step_size s"
  by (simp add: inverse_step_size_def)

lemma to_size_t_Inr: "to_size_t t = Inr c \<Longrightarrow> c = nat \<lfloor>t\<rfloor> \<and> t < 2 ^ 64"
  by (auto simp: to_size_t_def split: if_splits)

lemma real_lt_2_64: "n < 2 ^ 64 \<Longrightarrow> real n < 2 ^ 64"
  by (metis of_nat_less_iff of_nat_numeral of_nat_power)

lemma getGridCoord_lower:
  assumes ok: "axis_ok a b s v n"
    and p: "a \<le> p" "p \<le> b" "cell_index p a v = Inr i"
    and x: "x \<le> p" "getGridCoord x a b v n = Inr l"
  shows "l \<le> i"
proof (cases "x < a")
  case True
  with x show ?thesis by (simp add: getGridCoord_def)
next
  case False
  with x p have l: "to_size_t ((x - a) * v) = Inr l"
    by (simp add: getGridCoord_def)
  have v: "0 \<le> v"
    using ok by (simp add: axis_ok_def inverse_step_size_nonneg)
  have "(x - a) * v \<le> (p - a) * v"
    using x(1) v by (intro mult_right_mono) simp_all
  then have "nat \<lfloor>(x - a) * v\<rfloor> \<le> nat \<lfloor>(p - a) * v\<rfloor>"
    by (intro nat_mono floor_mono)
  with to_size_t_Inr [OF l] to_size_t_Inr [OF p(3) [unfolded cell_index_def]]
  show ?thesis by simp
qed

lemma getGridCoord_upper:
  assumes ok: "axis_ok a b s v n" and n: "n < 2 ^ 64"
    and p: "a \<le> p" "p \<le> b" "cell_index p a v = Inr i" "i < n"
    and x: "p \<le> x" "getGridCoord x a b v n = Inr u"
  shows "i \<le> u"
proof (cases "x > b")
  case True
  with x p have "u = sz_sub n 1"
    by (simp add: getGridCoord_def)
  also have "\<dots> = n - 1"
    using ok n by (intro sz_sub_1) (simp_all add: axis_ok_def)
  finally show ?thesis
    using p(4) by simp
next
  case False
  with x p have u: "to_size_t ((x - a) * v) = Inr u"
    by (simp add: getGridCoord_def)
  have v: "0 \<le> v"
    using ok by (simp add: axis_ok_def inverse_step_size_nonneg)
  have "(p - a) * v \<le> (x - a) * v"
    using x(1) v by (intro mult_right_mono) simp_all
  then have "nat \<lfloor>(p - a) * v\<rfloor> \<le> nat \<lfloor>(x - a) * v\<rfloor>"
    by (intro nat_mono floor_mono)
  with to_size_t_Inr [OF u] to_size_t_Inr [OF p(3) [unfolded cell_index_def]]
  show ?thesis by simp
qed

lemma getGridCoord_le:
  assumes ok: "axis_ok a b s v n" and n: "n < 2 ^ 64"
    and x: "getGridCoord x a b v n = Inr u"
  shows "u \<le> n"
proof -
  consider "x < a" | "b < x" "\<not> x < a" | "a \<le> x" "x \<le> b"
    by linarith
  then show ?thesis
  proof cases
    case 1
    with x show ?thesis by (simp add: getGridCoord_def)
  next
    case 2
    with x have "u = sz_sub n 1"
      by (simp add: getGridCoord_def)
    also have "\<dots> = n - 1"
      using ok n by (intro sz_sub_1) (simp_all add: axis_ok_def)
    finally show ?thesis by simp
  next
    case 3
    with x have u: "to_size_t ((x - a) * v) = Inr u"
      by (simp add: getGridCoord_def)
    have "(x - a) * v \<le> real n"
    proof (cases "s = 0")
      case True
      with ok 3 have "x = a" by (simp add: axis_ok_def)
      then show ?thesis by simp
    next
      case False
      with ok have s: "0 < s" and v: "v = 1 / s" and ba: "b - a = real n * s"
        by (simp_all add: axis_ok_def inverse_step_size_def)
      have "x - a \<le> real n * s"
        using 3 ba by simp
      then have "(x - a) / s \<le> real n"
        using s by (simp add: pos_divide_le_eq)
      then show ?thesis
        by (simp add: v)
    qed
    then have "\<lfloor>(x - a) * v\<rfloor> \<le> int n"
      by (simp add: floor_le_iff)
    then have "nat \<lfloor>(x - a) * v\<rfloor> \<le> n"
      by simp
    with to_size_t_Inr [OF u] show ?thesis by simp
  qed
qed

lemma for_each_grow:
  assumes "\<And>y s s'. f y s = Inr s' \<Longrightarrow> set s \<subseteq> set s'"
    and "for_each f xs s = Inr out"
  shows "set s \<subseteq> set out"
  using assms(2)
proof (induction xs arbitrary: s)
  case Nil
  then show ?case by simp
next
  case (Cons x xs)
  from Cons.prems obtain s1 where s1: "f x s = Inr s1" "for_each f xs s1 = Inr out"
    by (auto simp: fbind_def split: sum.splits)
  from assms(1) [OF s1(1)] Cons.IH [OF s1(2)] show ?case
    by blast
qed

lemma for_each_collect:
  assumes grow: "\<And>y s s'. f y s = Inr s' \<Longrightarrow> set s \<subseteq> set s'"
    and hit: "\<And>s s'. f x s = Inr s' \<Longrightarrow> A \<subseteq> set s'"
    and run: "for_each f xs s = Inr out" and x: "x \<in> set xs"
  shows "A \<subseteq> set out"
  using run x
proof (induction xs arbitrary: s)
  case Nil
  then show ?case by simp
next
  case (Cons y ys)
  from Cons.prems(1) obtain s1 where s1: "f y s = Inr s1" "for_each f ys s1 = Inr out"
    by (auto simp: fbind_def split: sum.splits)
  show ?case
  proof (cases "x = y")
    case True
    with hit s1(1) have "A \<subseteq> set s1" by blast
    moreover have "set s1 \<subseteq> set out"
      by (rule for_each_grow [OF _ s1(2)]) (rule grow)
    ultimately show ?thesis by blast
  next
    case False
    with Cons.prems(2) have "x \<in> set ys" by simp
    from Cons.IH [OF s1(2) this] show ?thesis .
  qed
qed

lemma copy_bucket_grow: "copy_bucket g c s = Inr s' \<Longrightarrow> set s \<subseteq> set s'"
  by (auto simp: copy_bucket_def Let_def split: if_splits)

lemma copy_bucket_hit:
  "copy_bucket g c s = Inr s' \<Longrightarrow>
   set (grid_quad_to_node_map g ! flat_index (n_steps g) c) \<subseteq> set s'"
  by (auto simp: copy_bucket_def Let_def split: if_splits)

lemma cube_loops_collect:
  assumes "for_each (\<lambda>i. for_each (\<lambda>j. for_each (\<lambda>k. copy_bucket g (i, j, k)) ks) js) is s
      = Inr out"
    and "i \<in> set is" "j \<in> set js" "k \<in> set ks"
  shows "set (grid_quad_to_node_map g ! flat_index (n_steps g) (i, j, k)) \<subseteq> set out"
proof -
  let ?A = "set (grid_quad_to_node_map g ! flat_index (n_steps g) (i, j, k))"
  have g1: "for_each (\<lambda>k. copy_bucket g (i', j', k)) ks s1 = Inr s2 \<Longrightarrow> set s1 \<subseteq> set s2"
    for i' j' s1 s2
    by (rule for_each_grow [where f = "\<lambda>k. copy_bucket g (i', j', k)"])
      (rule copy_bucket_grow)
  have g2: "for_each (\<lambda>j. for_each (\<lambda>k. copy_bucket g (i', j, k)) ks) js s1 = Inr s2 \<Longrightarrow>
      set s1 \<subseteq> set s2" for i' s1 s2
    by (rule for_each_grow [where f = "\<lambda>j. for_each (\<lambda>k. copy_bucket g (i', j, k)) ks"])
      (rule g1)
  have h1: "for_each (\<lambda>k. copy_bucket g (i, j, k)) ks s1 = Inr s2 \<Longrightarrow> ?A \<subseteq> set s2"
    for s1 s2
    by (rule for_each_collect [where f = "\<lambda>k. copy_bucket g (i, j, k)" and x = k])
      (erule copy_bucket_grow, erule copy_bucket_hit, assumption, rule assms(4))
  have h2: "for_each (\<lambda>j. for_each (\<lambda>k. copy_bucket g (i, j, k)) ks) js s1 = Inr s2 \<Longrightarrow>
      ?A \<subseteq> set s2" for s1 s2
    by (rule for_each_collect
        [where f = "\<lambda>j. for_each (\<lambda>k. copy_bucket g (i, j, k)) ks" and x = j])
      (erule g1, erule h1, assumption, rule assms(3))
  show ?thesis
    by (rule for_each_collect
        [where f = "\<lambda>i. for_each (\<lambda>j. for_each (\<lambda>k. copy_bucket g (i, j, k)) ks) js"
          and x = i])
      (erule g2, erule h2, rule assms(1), rule assms(2))
qed

lemma in_range:
  assumes "l \<le> i" "i \<le> u" "u \<le> n" "n + 1 < 2 ^ 64"
  shows "i \<in> set [l..<sz (u + 1)]"
proof -
  have "sz (u + 1) = u + 1"
    using assms by (simp add: sz_def)
  with assms show ?thesis by auto
qed

lemma getPointsWithinCube_superset:
  assumes wf: "well_formed g pnts"
    and run: "getPointsWithinCube g (cx, cy, cz) half_len pnts0 = Inr out"
    and p: "(x, y, z) \<in> set pnts"
    and cube: "cx - half_len \<le> x" "x \<le> cx + half_len"
      "cy - half_len \<le> y" "y \<le> cy + half_len"
      "cz - half_len \<le> z" "z \<le> cz + half_len"
  shows "(x, y, z) \<in> set out"
proof -
  obtain a0 a1 a2 b0 b1 b2 s0 s1 s2 v0 v1 v2 n0 n1 n2 where
    g: "min_pnt g = (a0, a1, a2)" "max_pnt g = (b0, b1, b2)" "step_sizes g = (s0, s1, s2)"
      "inverse_step_sizes g = (v0, v1, v2)" "n_steps g = (n0, n1, n2)"
    by (metis prod_cases3)
  from wf g have ok: "axis_ok a0 b0 s0 v0 n0" "axis_ok a1 b1 s1 v1 n1" "axis_ok a2 b2 s2 v2 n2"
    and tot: "n0 * n1 * n2 + 1 < 2 ^ 64"
    and st: "list_all (stored g) pnts"
    by (simp_all add: well_formed_def)
  from ok have pos: "0 < n0" "0 < n1" "0 < n2"
    by (simp_all add: axis_ok_def)
  have "n0 \<le> n0 * n1 * n2" "n1 \<le> n0 * n1 * n2" "n2 \<le> n0 * n1 * n2"
    using pos by simp_all
  with tot have n: "n0 + 1 < 2 ^ 64" "n1 + 1 < 2 ^ 64" "n2 + 1 < 2 ^ 64"
    by linarith+
  from st p have "stored g (x, y, z)"
    unfolding list_all_iff by blast
  with g obtain i j k where
    box: "a0 \<le> x" "x \<le> b0" "a1 \<le> y" "y \<le> b1" "a2 \<le> z" "z \<le> b2"
    and c: "i < n0" "j < n1" "k < n2"
      "cell_index x a0 v0 = Inr i" "cell_index y a1 v1 = Inr j" "cell_index z a2 v2 = Inr k"
    and inb: "(x, y, z) \<in> set (grid_quad_to_node_map g ! flat_index (n0, n1, n2) (i, j, k))"
    by auto
  from run g obtain l0 l1 l2 u0 u1 u2 where
    lo: "getGridCoord (cx - half_len) a0 b0 v0 n0 = Inr l0"
      "getGridCoord (cy - half_len) a1 b1 v1 n1 = Inr l1"
      "getGridCoord (cz - half_len) a2 b2 v2 n2 = Inr l2"
    and hi: "getGridCoord (cx + half_len) a0 b0 v0 n0 = Inr u0"
      "getGridCoord (cy + half_len) a1 b1 v1 n1 = Inr u1"
      "getGridCoord (cz + half_len) a2 b2 v2 n2 = Inr u2"
    and loops: "for_each (\<lambda>i. for_each (\<lambda>j. for_each (\<lambda>k. copy_bucket g (i, j, k))
        [l2..<sz (u2 + 1)]) [l1..<sz (u1 + 1)]) [l0..<sz (u0 + 1)] pnts0 = Inr out"
    by (auto simp: fbind_def split: sum.splits)
  have "i \<in> set [l0..<sz (u0 + 1)]"
    using ok(1) n(1) box c cube lo hi
    by (intro in_range [where n = n0] getGridCoord_lower [where x = "cx - half_len"]
        getGridCoord_upper [where x = "cx + half_len"] getGridCoord_le [where x = "cx + half_len"])
      simp_all
  moreover have "j \<in> set [l1..<sz (u1 + 1)]"
    using ok(2) n(2) box c cube lo hi
    by (intro in_range [where n = n1] getGridCoord_lower [where x = "cy - half_len"]
        getGridCoord_upper [where x = "cy + half_len"] getGridCoord_le [where x = "cy + half_len"])
      simp_all
  moreover have "k \<in> set [l2..<sz (u2 + 1)]"
    using ok(3) n(3) box c cube lo hi
    by (intro in_range [where n = n2] getGridCoord_lower [where x = "cz - half_len"]
        getGridCoord_upper [where x = "cz + half_len"] getGridCoord_le [where x = "cz + half_len"])
      simp_all
  ultimately have "set (grid_quad_to_node_map g ! flat_index (n_steps g) (i, j, k)) \<subseteq> set out"
    by (rule cube_loops_collect [OF loops])
  with inb g show ?thesis
    by auto
qed

text \<open>
  The constructor, when it completes without a message on a box that holds the points,
  gives a well-formed grid.
\<close>

lemma update_fst_le:
  "fst (fst (update box p)) \<le> fst (fst box) \<and> fst (fst (update box p)) \<le> fst p \<and>
   fst (snd (fst (update box p))) \<le> fst (snd (fst box)) \<and>
   fst (snd (fst (update box p))) \<le> fst (snd p) \<and>
   snd (snd (fst (update box p))) \<le> snd (snd (fst box)) \<and>
   snd (snd (fst (update box p))) \<le> snd (snd p)"
  by (cases box rule: prod.exhaust [case_product prod_cases3 prod_cases3]; cases p) auto

lemma foldl_update_min:
  "(fst (fst (foldl update box ps)) \<le> fst (fst box) \<and>
    fst (snd (fst (foldl update box ps))) \<le> fst (snd (fst box)) \<and>
    snd (snd (fst (foldl update box ps))) \<le> snd (snd (fst box))) \<and>
   (\<forall>p\<in>set ps. fst (fst (foldl update box ps)) \<le> fst p \<and>
      fst (snd (fst (foldl update box ps))) \<le> fst (snd p) \<and>
      snd (snd (fst (foldl update box ps))) \<le> snd (snd p))"
proof (induction ps arbitrary: box)
  case Nil
  show ?case by simp
next
  case (Cons p ps)
  from Cons.IH [of "update box p"] update_fst_le [of box p] show ?case
    by (simp del: update.simps)
qed

lemma AABB_min:
  assumes "AABB pnts = Inr ((a0, a1, a2), mx)" "(x, y, z) \<in> set pnts"
  shows "a0 \<le> x \<and> a1 \<le> y \<and> a2 \<le> z"
proof -
  from assms(1) obtain p ps where pnts: "pnts = p # ps"
    and fold: "foldl update (p, p) ps = ((a0, a1, a2), mx)"
    by (auto simp: AABB_def split: list.splits)
  from foldl_update_min [of "(p, p)" ps] fold assms(2) show ?thesis
    unfolding pnts by auto
qed

lemma Grid_cout_fields:
  assumes "Grid_cout pnts m = Inr (cout, g)"
  obtains a0 a1 a2 b0 b1 b2 n0 n1 n2 s0 s1 s2 where
    "AABB pnts = Inr ((a0, a1, a2), (b0, b1, b2))"
    "min_pnt g = (a0, a1, a2)"
    "max_pnt g = (inflate a0 b0, inflate a1 b1, inflate a2 b2)"
    "n_steps g = (n0, n1, n2)"
    "step_size (inflate a0 b0 - a0) n0 = Inr s0"
    "step_size (inflate a1 b1 - a1) n1 = Inr s1"
    "step_size (inflate a2 b2 - a2) n2 = Inr s2"
    "step_sizes g = (s0, s1, s2)"
    "inverse_step_sizes g = (inverse_step_size s0, inverse_step_size s1, inverse_step_size s2)"
    "for_each (\<lambda>p s. fill_pnt (min_pnt g) (inverse_step_sizes g) (n_steps g) s p) pnts
       ([], replicate (sz (n0 * n1 * n2)) []) = Inr (cout, grid_quad_to_node_map g)"
  using assms
  by (auto simp: Grid_cout_def fbind_def Let_def split: sum.splits prod.splits)

lemma step_size_axis_ok:
  assumes "step_size (b - a) n = Inr s" "a \<le> b"
  shows "axis_ok a b s (inverse_step_size s) n"
  using assms by (auto simp: step_size_def axis_ok_def split: if_splits)

lemma fill_pnt_step:
  assumes "fill_pnt (m0, m1, m2) (v0, v1, v2) (n0, n1, n2) (cout, b) (x, y, z) = Inr (cout', b')"
  obtains i j k where
    "cell_index x m0 v0 = Inr i" "cell_index y m1 v1 = Inr j" "cell_index z m2 v2 = Inr k"
    "flat_index (n0, n1, n2) (i, j, k) < length b"
    "b' = b[flat_index (n0, n1, n2) (i, j, k) :=
            b ! flat_index (n0, n1, n2) (i, j, k) @ [(x, y, z)]]"
  using assms
  by (auto simp: fbind_def Let_def simp del: flat_index.simps split: sum.splits if_splits)

lemma fill_stored:
  assumes "for_each (\<lambda>p s. fill_pnt (m0, m1, m2) (v0, v1, v2) (n0, n1, n2) s p) ps (cout, b)
      = Inr (cout', b')"
  shows "length b' = length b \<and>
    (\<forall>idx<length b. set (b ! idx) \<subseteq> set (b' ! idx) \<and>
       set (b' ! idx) \<subseteq> set (b ! idx) \<union> set ps) \<and>
    (\<forall>(x, y, z)\<in>set ps. \<exists>i j k.
       cell_index x m0 v0 = Inr i \<and> cell_index y m1 v1 = Inr j \<and>
       cell_index z m2 v2 = Inr k \<and>
       (x, y, z) \<in> set (b' ! flat_index (n0, n1, n2) (i, j, k)))"
  using assms
proof (induction ps arbitrary: cout b)
  case Nil
  then show ?case by simp
next
  case (Cons p ps)
  obtain x y z where p: "p = (x, y, z)"
    by (cases p) auto
  from Cons.prems obtain c1 b1 where
    step: "fill_pnt (m0, m1, m2) (v0, v1, v2) (n0, n1, n2) (cout, b) (x, y, z) = Inr (c1, b1)"
    and rest: "for_each (\<lambda>p s. fill_pnt (m0, m1, m2) (v0, v1, v2) (n0, n1, n2) s p) ps (c1, b1)
      = Inr (cout', b')"
    by (auto simp: fbind_def p split: sum.splits)
  from step obtain i j k where
    c: "cell_index x m0 v0 = Inr i" "cell_index y m1 v1 = Inr j" "cell_index z m2 v2 = Inr k"
    and idx: "flat_index (n0, n1, n2) (i, j, k) < length b"
    and b1: "b1 = b[flat_index (n0, n1, n2) (i, j, k) :=
            b ! flat_index (n0, n1, n2) (i, j, k) @ [(x, y, z)]]"
    by (rule fill_pnt_step)
  let ?f = "flat_index (n0, n1, n2) (i, j, k)"
  from Cons.IH [OF rest] have
    len: "length b' = length b1"
    and mono: "\<forall>idx<length b1. set (b1 ! idx) \<subseteq> set (b' ! idx) \<and>
       set (b' ! idx) \<subseteq> set (b1 ! idx) \<union> set ps"
    and st: "\<forall>(x, y, z)\<in>set ps. \<exists>i j k.
       cell_index x m0 v0 = Inr i \<and> cell_index y m1 v1 = Inr j \<and>
       cell_index z m2 v2 = Inr k \<and>
       (x, y, z) \<in> set (b' ! flat_index (n0, n1, n2) (i, j, k))"
    by blast+
  have l1: "length b1 = length b"
    by (simp add: b1)
  have step_sets: "set (b ! n) \<subseteq> set (b1 ! n) \<and> set (b1 ! n) \<subseteq> set (b ! n) \<union> {(x, y, z)}"
    if "n < length b" for n
    using that by (cases "n = ?f") (auto simp: b1 simp del: flat_index.simps)
  have here: "(x, y, z) \<in> set (b1 ! ?f)"
    using idx by (simp add: b1 del: flat_index.simps)
  have "(x, y, z) \<in> set (b' ! ?f)"
    using here mono idx l1 by auto
  with c have new: "\<exists>i j k.
       cell_index x m0 v0 = Inr i \<and> cell_index y m1 v1 = Inr j \<and>
       cell_index z m2 v2 = Inr k \<and>
       (x, y, z) \<in> set (b' ! flat_index (n0, n1, n2) (i, j, k))"
    by blast
  have "\<forall>idx<length b. set (b ! idx) \<subseteq> set (b' ! idx) \<and>
       set (b' ! idx) \<subseteq> set (b ! idx) \<union> set (p # ps)"
  proof (intro allI impI)
    fix n assume n: "n < length b"
    from mono n l1 have "set (b1 ! n) \<subseteq> set (b' ! n)"
      "set (b' ! n) \<subseteq> set (b1 ! n) \<union> set ps"
      by simp_all
    with step_sets [OF n] show "set (b ! n) \<subseteq> set (b' ! n) \<and>
       set (b' ! n) \<subseteq> set (b ! n) \<union> set (p # ps)"
      unfolding p by auto
  qed
  with len l1 new st show ?case
    unfolding p by (simp del: flat_index.simps)
qed

lemma Grid_well_formed:
  assumes run: "Grid_cout pnts m = Inr ([], g)"
    and box: "list_all (below (max_pnt g)) pnts"
    and tot: "(case n_steps g of (n0, n1, n2) \<Rightarrow> n0 * n1 * n2 + 1 < 2 ^ 64)"
  shows "well_formed g pnts"
proof -
  from run obtain a0 a1 a2 b0 b1 b2 n0 n1 n2 s0 s1 s2 where
    aabb: "AABB pnts = Inr ((a0, a1, a2), (b0, b1, b2))"
    and mn: "min_pnt g = (a0, a1, a2)"
    and mx: "max_pnt g = (inflate a0 b0, inflate a1 b1, inflate a2 b2)"
    and n: "n_steps g = (n0, n1, n2)"
    and s: "step_size (inflate a0 b0 - a0) n0 = Inr s0"
      "step_size (inflate a1 b1 - a1) n1 = Inr s1"
      "step_size (inflate a2 b2 - a2) n2 = Inr s2"
    and ss: "step_sizes g = (s0, s1, s2)"
    and iv: "inverse_step_sizes g =
      (inverse_step_size s0, inverse_step_size s1, inverse_step_size s2)"
    and fill: "for_each (\<lambda>p s. fill_pnt (min_pnt g) (inverse_step_sizes g) (n_steps g) s p) pnts
       ([], replicate (sz (n0 * n1 * n2)) []) = Inr ([], grid_quad_to_node_map g)"
    by (rule Grid_cout_fields)
  let ?B0 = "inflate a0 b0" and ?B1 = "inflate a1 b1" and ?B2 = "inflate a2 b2"
  let ?v0 = "inverse_step_size s0" and ?v1 = "inverse_step_size s1"
    and ?v2 = "inverse_step_size s2"
  from tot n have tot': "n0 * n1 * n2 + 1 < 2 ^ 64"
    by simp
  then have sz: "sz (n0 * n1 * n2) = n0 * n1 * n2"
    by (simp add: sz_def)
  have inbox: "a0 \<le> x \<and> x \<le> ?B0 \<and> a1 \<le> y \<and> y \<le> ?B1 \<and> a2 \<le> z \<and> z \<le> ?B2"
    if "(x, y, z) \<in> set pnts" for x y z
  proof -
    from box that have "below (max_pnt g) (x, y, z)"
      unfolding list_all_iff by blast
    with AABB_min [OF aabb that] mx show ?thesis
      by simp
  qed
  from aabb obtain p ps where "pnts = p # ps"
    by (auto simp: AABB_def split: list.splits)
  then obtain x y z where "(x, y, z) \<in> set pnts"
    by (cases p) auto
  from inbox [OF this] have le: "a0 \<le> ?B0" "a1 \<le> ?B1" "a2 \<le> ?B2"
    by linarith+
  have ok: "axis_ok a0 ?B0 s0 ?v0 n0" "axis_ok a1 ?B1 s1 ?v1 n1" "axis_ok a2 ?B2 s2 ?v2 n2"
    using s le by (simp_all add: step_size_axis_ok)
  from fill [unfolded mn iv n] have filled:
    "length (grid_quad_to_node_map g) = length (replicate (sz (n0 * n1 * n2)) ([] :: vec3 list))"
    "\<forall>idx<length (replicate (sz (n0 * n1 * n2)) ([] :: vec3 list)).
       set (grid_quad_to_node_map g ! idx) \<subseteq>
         set (replicate (sz (n0 * n1 * n2)) ([] :: vec3 list) ! idx) \<union> set pnts"
    "\<forall>(x, y, z)\<in>set pnts. \<exists>i j k.
       cell_index x a0 ?v0 = Inr i \<and> cell_index y a1 ?v1 = Inr j \<and>
       cell_index z a2 ?v2 = Inr k \<and>
       (x, y, z) \<in> set (grid_quad_to_node_map g ! flat_index (n0, n1, n2) (i, j, k))"
    using fill_stored [of a0 a1 a2 ?v0 ?v1 ?v2 n0 n1 n2 pnts "[]"
        "replicate (sz (n0 * n1 * n2)) []" "[]" "grid_quad_to_node_map g"]
    by blast+
  from filled(1) sz have len: "length (grid_quad_to_node_map g) = n0 * n1 * n2"
    by simp
  from fill_cout [OF fill]
  have "filter (outside (min_pnt g) (inverse_step_sizes g) (n_steps g)) pnts = []"
    by simp
  then have inside: "\<not> outside (a0, a1, a2) (?v0, ?v1, ?v2) (n0, n1, n2) q" if "q \<in> set pnts" for q
    using that unfolding mn iv n by (simp add: filter_empty_conv)
  have "stored g q" if q: "q \<in> set pnts" for q
  proof -
    obtain x y z where xyz: "q = (x, y, z)"
      by (cases q) auto
    from filled(3) q xyz obtain i j k where
      c: "cell_index x a0 ?v0 = Inr i" "cell_index y a1 ?v1 = Inr j" "cell_index z a2 ?v2 = Inr k"
      and inb: "(x, y, z) \<in> set (grid_quad_to_node_map g ! flat_index (n0, n1, n2) (i, j, k))"
      by blast
    from inside [OF q] c have "i < n0" "j < n1" "k < n2"
      unfolding xyz by simp_all
    with c inb inbox [of x y z] q show ?thesis
      unfolding xyz by (simp add: mn mx iv n del: flat_index.simps)
  qed
  then have st: "list_all (stored g) pnts"
    unfolding list_all_iff by blast
  have "set b \<subseteq> set pnts" if "b \<in> set (grid_quad_to_node_map g)" for b
  proof -
    from that obtain idx where idx: "idx < length (grid_quad_to_node_map g)"
      "b = grid_quad_to_node_map g ! idx"
      by (auto simp: in_set_conv_nth)
    with filled(1,2) show ?thesis
      by auto
  qed
  then have own: "list_all (\<lambda>b. list_all (\<lambda>p. p \<in> set pnts) b) (grid_quad_to_node_map g)"
    unfolding list_all_iff by blast
  from ok tot' len st own show ?thesis
    by (simp add: well_formed_def mn mx ss iv n)
qed

lemma inflate_ge:
  assumes "mn \<le> mx" "mn \<le> 0 \<or> DBL_EPSILON \<le> mx"
  shows "mx \<le> inflate mn mx"
proof -
  let ?m = "mx + \<bar>mx\<bar> * (1 / 10 ^ 6)"
  have m: "mx \<le> ?m"
    by simp
  show ?thesis
  proof (cases "\<bar>?m\<bar> < DBL_EPSILON")
    case False
    then show ?thesis
      using m by (simp add: inflate_def Let_def)
  next
    case True
    with m assms(2) have "mn \<le> 0"
      by linarith
    have "0 \<le> ?m - mn"
      using m assms(1) by linarith
    then have "?m - mn \<le> (?m - mn) * (1 + 1 / 10 ^ 6)"
      by (simp add: mult_le_cancel_left1)
    with \<open>mn \<le> 0\<close> m have "mx \<le> (?m - mn) * (1 + 1 / 10 ^ 6)"
      by linarith
    with True show ?thesis
      by (simp add: inflate_def Let_def)
  qed
qed

lemma well_formed_line_x: "well_formed line_x [(0, 0, 0), (1, 0, 0), (8, 0, 0)]"
proof (rule Grid_well_formed)
  show "Grid_cout [(0, 0, 0), (1, 0, 0), (8, 0, 0)] 1 = Inr ([], line_x)"
    by (simp add: ctor_defs line_x_def replicate_3)
qed (simp_all add: line_x_def)

lemma sqrDist_sym: "sqrDist a b = sqrDist b a"
  by (cases a, cases b) (simp add: algebra_simps)

lemma sqrDist_axis:
  "(x - x') * (x - x') \<le> sqrDist (x, y, z) (x', y', z')"
  "(y - y') * (y - y') \<le> sqrDist (x, y, z) (x', y', z')"
  "(z - z') * (z - z') \<le> sqrDist (x, y, z) (x', y', z')"
  by simp_all

lemma abs_le_sqrt:
  assumes "t * t \<le> d"
  shows "\<bar>t\<bar> \<le> sqrt d"
proof -
  have "sqrt (t * t) \<le> sqrt d"
    using assms by (rule real_sqrt_le_mono)
  then show ?thesis by simp
qed

lemma sqrt_le_abs:
  assumes "sqrt d \<le> \<bar>t\<bar>"
  shows "d \<le> t * t"
proof -
  from assms have "d \<le> \<bar>t\<bar>\<^sup>2"
    by (rule sqrt_le_D)
  then show ?thesis
    by (simp add: power2_eq_square)
qed

text \<open>The scan of a bucket.\<close>

lemma nearer_step:
  assumes "d1 = sqrDist p1 q" "nearer q (d1, p1) r = (d, p)"
  shows "d = sqrDist p q \<and> (p = p1 \<or> p = r) \<and> d \<le> d1 \<and> d \<le> sqrDist r q"
  using assms by (auto simp: nearer_def split: if_splits)

lemma foldl_nearer:
  assumes "foldl (nearer q) (sqrDist p0 q, p0) ps = (d, p)"
  shows "d = sqrDist p q \<and> p \<in> set (p0 # ps) \<and> (\<forall>r\<in>set (p0 # ps). d \<le> sqrDist r q)"
  using assms
proof (induction ps arbitrary: d p rule: rev_induct)
  case Nil
  then show ?case by auto
next
  case (snoc r ps)
  obtain d1 p1 where f: "foldl (nearer q) (sqrDist p0 q, p0) ps = (d1, p1)"
    by (cases "foldl (nearer q) (sqrDist p0 q, p0) ps") auto
  from snoc.prems f have "nearer q (d1, p1) r = (d, p)"
    by simp
  from nearer_step [OF _ this] snoc.IH [OF f] show ?case
    by fastforce
qed

lemma calcNearestPointInGridCell_Some:
  assumes "calcNearestPointInGridCell g q c = Inr (Some (d, p))"
  shows "d = sqrDist p q \<and>
    p \<in> set (grid_quad_to_node_map g ! flat_index (n_steps g) c) \<and>
    flat_index (n_steps g) c < length (grid_quad_to_node_map g) \<and>
    (\<forall>r\<in>set (grid_quad_to_node_map g ! flat_index (n_steps g) c). d \<le> sqrDist r q)"
proof -
  let ?b = "grid_quad_to_node_map g ! flat_index (n_steps g) c"
  from assms obtain p0 ps where b: "?b = p0 # ps"
    and idx: "flat_index (n_steps g) c < length (grid_quad_to_node_map g)"
    and f: "foldl (nearer q) (sqrDist p0 q, p0) ps = (d, p)"
    by (auto simp: calcNearestPointInGridCell_def Let_def split: if_splits list.splits)
  from foldl_nearer [OF f] idx show ?thesis
    unfolding b by auto
qed

text \<open>The scan of the points of the cube.\<close>

lemma nearer_in_cube_step:
  assumes "d1 = sqrDist q p1" "nearer_in_cube q (d1, p1) r = (d, p)"
  shows "d = sqrDist q p \<and> (p = p1 \<or> p = r) \<and> d \<le> d1 \<and> d \<le> sqrDist q r"
  using assms by (auto simp: nearer_in_cube_def split: if_splits)

lemma foldl_nearer_in_cube:
  assumes "foldl (nearer_in_cube q) (d0, p0) ps = (d, p)" "d0 = sqrDist q p0"
  shows "d = sqrDist q p \<and> p \<in> set (p0 # ps) \<and> (\<forall>r\<in>set (p0 # ps). d \<le> sqrDist q r)"
  using assms(1)
proof (induction ps arbitrary: d p rule: rev_induct)
  case Nil
  with assms(2) show ?case by auto
next
  case (snoc r ps)
  obtain d1 p1 where f: "foldl (nearer_in_cube q) (d0, p0) ps = (d1, p1)"
    by (cases "foldl (nearer_in_cube q) (d0, p0) ps") auto
  from snoc.prems f have "nearer_in_cube q (d1, p1) r = (d, p)"
    by simp
  from nearer_in_cube_step [OF _ this] snoc.IH [OF f] show ?case
    by fastforce
qed

text \<open>What the cube query appends comes from the buckets.\<close>

lemma for_each_within:
  assumes "\<And>y s s'. f y s = Inr s' \<Longrightarrow> set s' \<subseteq> set s \<union> U"
    and "for_each f xs s = Inr out"
  shows "set out \<subseteq> set s \<union> U"
  using assms(2)
proof (induction xs arbitrary: s)
  case Nil
  then show ?case by simp
next
  case (Cons x xs)
  from Cons.prems obtain s1 where s1: "f x s = Inr s1" "for_each f xs s1 = Inr out"
    by (auto simp: fbind_def split: sum.splits)
  from assms(1) [OF s1(1)] Cons.IH [OF s1(2)] show ?case
    by blast
qed

lemma copy_bucket_within:
  assumes "copy_bucket g c s = Inr s'"
  shows "set s' \<subseteq> set s \<union> \<Union> (set ` set (grid_quad_to_node_map g))"
  using assms by (auto simp: copy_bucket_def Let_def split: if_splits)

lemma getPointsWithinCube_within:
  assumes "getPointsWithinCube g c half_len pnts0 = Inr out"
  shows "set out \<subseteq> set pnts0 \<union> \<Union> (set ` set (grid_quad_to_node_map g))"
proof -
  let ?U = "\<Union> (set ` set (grid_quad_to_node_map g))"
  obtain x y z where c: "c = (x, y, z)"
    by (cases c) auto
  have w1: "for_each (\<lambda>k. copy_bucket g (i, j, k)) ks s = Inr s' \<Longrightarrow> set s' \<subseteq> set s \<union> ?U"
    for i j ks s s'
    by (rule for_each_within [where f = "\<lambda>k. copy_bucket g (i, j, k)"])
      (erule copy_bucket_within)
  have w2: "for_each (\<lambda>j. for_each (\<lambda>k. copy_bucket g (i, j, k)) ks) js s = Inr s' \<Longrightarrow>
      set s' \<subseteq> set s \<union> ?U" for i js ks s s'
    by (rule for_each_within [where f = "\<lambda>j. for_each (\<lambda>k. copy_bucket g (i, j, k)) ks"])
      (erule w1)
  have w3: "for_each (\<lambda>i. for_each (\<lambda>j. for_each (\<lambda>k. copy_bucket g (i, j, k)) ks) js) is s
      = Inr s' \<Longrightarrow> set s' \<subseteq> set s \<union> ?U" for "is" js ks s s'
    by (rule for_each_within
        [where f = "\<lambda>i. for_each (\<lambda>j. for_each (\<lambda>k. copy_bucket g (i, j, k)) ks) js"])
      (erule w2)
  from assms obtain l0 l1 l2 u0 u1 u2 where
    "for_each (\<lambda>i. for_each (\<lambda>j. for_each (\<lambda>k. copy_bucket g (i, j, k))
        [l2..<sz (u2 + 1)]) [l1..<sz (u1 + 1)]) [l0..<sz (u0 + 1)] pnts0 = Inr out"
    unfolding c getPointsWithinCube.simps
    by (auto simp: fbind_def simp del: getGridCoords.simps split: sum.splits prod.splits)
  then show ?thesis
    by (rule w3)
qed

lemma well_formed_buckets:
  assumes "well_formed g pnts"
  shows "\<Union> (set ` set (grid_quad_to_node_map g)) \<subseteq> set pnts"
proof -
  from assms have "list_all (\<lambda>b. list_all (\<lambda>p. p \<in> set pnts) b) (grid_quad_to_node_map g)"
    by (auto simp: well_formed_def split: prod.splits)
  then show ?thesis
    by (auto simp: list_all_iff)
qed

text \<open>One axis of the test for the early return.\<close>

lemma axis_early:
  assumes ok: "axis_ok a b s v n" and n: "n < 2 ^ 64"
    and c: "getGridCoord x a b v n = Inr c"
    and m: "0 \<le> m" "m \<le> x - a + real c * s" "m \<le> s - (x - a + real c * s)"
    and r: "a \<le> r" "r \<le> b" "cell_index r a v = Inr i" "i \<noteq> c"
  shows "m \<le> \<bar>r - x\<bar>"
proof (cases "s = 0")
  case True
  with m have "m = 0" by linarith
  then show ?thesis by simp
next
  case False
  with ok have s: "0 < s" and v: "v = 1 / s" and ba: "b - a = real n * s" and n0: "0 < n"
    by (simp_all add: axis_ok_def inverse_step_size_def)
  have xa: "a \<le> x"
  proof (rule ccontr)
    assume "\<not> a \<le> x"
    with c have "c = 0" by (simp add: getGridCoord_def)
    with m \<open>\<not> a \<le> x\<close> show False by simp
  qed
  have xb: "x \<le> b"
  proof (rule ccontr)
    assume nb: "\<not> x \<le> b"
    with c xa have "c = sz_sub n 1" by (simp add: getGridCoord_def)
    also have "\<dots> = n - 1" using n0 n by (rule sz_sub_1)
    finally have cn: "real c = real n - 1" using n0 by (simp add: of_nat_diff)
    define t where "t = (real n - 1) * s"
    have "0 \<le> t" using n0 s by (simp add: t_def)
    moreover have "t + s < x - a"
    proof -
      have "real n * s = t + s" by (simp add: t_def algebra_simps)
      with nb ba show ?thesis by linarith
    qed
    moreover have "m \<le> s - (x - a + t)"
      using m(3) by (simp add: cn t_def)
    ultimately show False using m(1) by linarith
  qed
  from c xa xb have ct: "to_size_t ((x - a) * v) = Inr c"
    by (simp add: getGridCoord_def)
  have nonneg: "0 \<le> (x - a) * v"
    using xa s by (simp add: v)
  from to_size_t_Inr [OF ct] have "c = nat \<lfloor>(x - a) * v\<rfloor>" by simp
  with nonneg have "real c \<le> (x - a) * v"
    by (metis floor_less_iff less_eq_real_def linorder_not_le nat_less_iff of_int_floor_le
        of_nat_nat zero_le_floor)
  then have "real c * s \<le> x - a"
    using s by (simp add: v pos_le_divide_eq)
  with m have "2 * (real c * s) \<le> s"
    by linarith
  then have "2 * real c \<le> 1"
    using s by simp
  then have c0: "c = 0"
    by linarith
  with r(4) have "1 \<le> i" by simp
  from to_size_t_Inr [OF r(3) [unfolded cell_index_def]] have "i = nat \<lfloor>(r - a) * v\<rfloor>"
    by simp
  with \<open>1 \<le> i\<close> have "1 \<le> \<lfloor>(r - a) * v\<rfloor>" by linarith
  then have "1 \<le> (r - a) * v"
    by (simp add: le_floor_iff)
  then have "s \<le> r - a"
    using s by (simp add: v pos_le_divide_eq)
  with m c0 show ?thesis
    by simp
qed


lemma sqrDist_nonneg: "0 \<le> sqrDist a b"
  by (cases a, cases b) simp

lemma well_formed_bucket_points:
  assumes "well_formed g pnts" "idx < length (grid_quad_to_node_map g)"
    "p \<in> set (grid_quad_to_node_map g ! idx)"
  shows "p \<in> set pnts"
  using well_formed_buckets [OF assms(1)] assms(2,3) nth_mem by blast

lemma early_return_nearest:
  assumes wf: "well_formed g pnts"
    and c: "getGridCoords g q = Inr c"
    and found: "calcNearestPointInGridCell g q c = Inr (Some (d, p))"
    and dists: "getPointCellBorderDistances g q c = (d0, d1, d2, d3, d4, d5)"
    and ge: "sqrt d \<le> d0" "sqrt d \<le> d1" "sqrt d \<le> d2" "sqrt d \<le> d3" "sqrt d \<le> d4"
      "sqrt d \<le> d5"
    and r: "r \<in> set pnts"
  shows "sqrDist q p \<le> sqrDist q r"
proof -
  obtain a0 a1 a2 b0 b1 b2 s0 s1 s2 v0 v1 v2 n0 n1 n2 where
    g: "min_pnt g = (a0, a1, a2)" "max_pnt g = (b0, b1, b2)" "step_sizes g = (s0, s1, s2)"
      "inverse_step_sizes g = (v0, v1, v2)" "n_steps g = (n0, n1, n2)"
    by (metis prod_cases3)
  obtain x y z where q: "q = (x, y, z)" by (cases q) auto
  obtain c0 c1 c2 where cc: "c = (c0, c1, c2)" by (cases c) auto
  obtain rx ry rz where rr: "r = (rx, ry, rz)" by (cases r) auto
  from wf g have ok: "axis_ok a0 b0 s0 v0 n0" "axis_ok a1 b1 s1 v1 n1" "axis_ok a2 b2 s2 v2 n2"
    and tot: "n0 * n1 * n2 + 1 < 2 ^ 64"
    and st: "list_all (stored g) pnts"
    by (simp_all add: well_formed_def)
  from ok have pos: "0 < n0" "0 < n1" "0 < n2"
    by (simp_all add: axis_ok_def)
  have "n0 \<le> n0 * n1 * n2" "n1 \<le> n0 * n1 * n2" "n2 \<le> n0 * n1 * n2"
    using pos by simp_all
  with tot have n: "n0 < 2 ^ 64" "n1 < 2 ^ 64" "n2 < 2 ^ 64"
    by linarith+
  from st r have "stored g (rx, ry, rz)"
    unfolding list_all_iff rr by blast
  with g obtain i j k where
    box: "a0 \<le> rx" "rx \<le> b0" "a1 \<le> ry" "ry \<le> b1" "a2 \<le> rz" "rz \<le> b2"
    and ci: "cell_index rx a0 v0 = Inr i" "cell_index ry a1 v1 = Inr j"
      "cell_index rz a2 v2 = Inr k"
    and inb: "(rx, ry, rz) \<in> set (grid_quad_to_node_map g ! flat_index (n0, n1, n2) (i, j, k))"
    by auto
  from c g have gc: "getGridCoord x a0 b0 v0 n0 = Inr c0" "getGridCoord y a1 b1 v1 n1 = Inr c1"
    "getGridCoord z a2 b2 v2 n2 = Inr c2"
    unfolding q cc by (auto simp: fbind_def split: sum.splits)
  from dists g have dd: "d0 = z - a2 + real c2 * s2" "d5 = s2 - d0"
    "d1 = y - a1 + real c1 * s1" "d3 = s1 - d1"
    "d4 = x - a0 + real c0 * s0" "d2 = s0 - d4"
    unfolding q cc by (simp_all add: Let_def)
  from calcNearestPointInGridCell_Some [OF found] have
    d: "d = sqrDist p q"
    and best: "\<forall>r\<in>set (grid_quad_to_node_map g ! flat_index (n_steps g) c). d \<le> sqrDist r q"
    by blast+
  have m0: "0 \<le> sqrt d"
    unfolding d using sqrDist_nonneg by simp
  have far: "d \<le> sqrDist r q" if "sqrt d \<le> \<bar>t\<bar>" "t * t \<le> sqrDist r q" for t
    using sqrt_le_abs [OF that(1)] that(2) by linarith
  have "d \<le> sqrDist r q"
  proof (cases "(i, j, k) = (c0, c1, c2)")
    case True
    with inb best g cc rr show ?thesis
      by (simp del: flat_index.simps)
  next
    case False
    then consider "i \<noteq> c0" | "j \<noteq> c1" | "k \<noteq> c2"
      by auto
    then show ?thesis
    proof cases
      case 1
      have "sqrt d \<le> \<bar>rx - x\<bar>"
        using ok(1) n(1) gc(1) m0 ge dd box ci 1
        by (intro axis_early [where c = c0 and i = i and s = s0]) simp_all
      then show ?thesis
        by (rule far) (unfold rr q, rule sqrDist_axis)
    next
      case 2
      have "sqrt d \<le> \<bar>ry - y\<bar>"
        using ok(2) n(2) gc(2) m0 ge dd box ci 2
        by (intro axis_early [where c = c1 and i = j and s = s1]) simp_all
      then show ?thesis
        by (rule far) (unfold rr q, rule sqrDist_axis)
    next
      case 3
      have "sqrt d \<le> \<bar>rz - z\<bar>"
        using ok(3) n(3) gc(3) m0 ge dd box ci 3
        by (intro axis_early [where c = c2 and i = k and s = s2]) simp_all
      then show ?thesis
        by (rule far) (unfold rr q, rule sqrDist_axis)
    qed
  qed
  then show ?thesis
    by (simp add: d sqrDist_sym)
qed


lemma for_each_invariant:
  assumes "\<And>y s s'. f y s = Inr s' \<Longrightarrow> I s \<Longrightarrow> I s'"
    and "for_each f xs s = Inr s'" "I s"
  shows "I s'"
  using assms(2,3)
proof (induction xs arbitrary: s)
  case Nil
  then show ?case by simp
next
  case (Cons x xs)
  from Cons.prems(1) obtain s1 where s1: "f x s = Inr s1" "for_each f xs s1 = Inr s'"
    by (auto simp: fbind_def split: sum.splits)
  from assms(1) [OF s1(1) Cons.prems(2)] Cons.IH [OF s1(2)] show ?case
    by blast
qed

lemma ring_cell_candidate:
  assumes wf: "well_formed g pnts"
    and run: "ring_cell g q c t st = Inr st'" and st: "candidate pnts q st"
  shows "candidate pnts q st'"
proof -
  obtain t0 t1 t2 where t: "t = (t0, t1, t2)" by (cases t) auto
  obtain d np where s: "st = (d, np)" by (cases st) auto
  obtain n0 n1 n2 where n: "n_steps g = (n0, n1, n2)" by (cases "n_steps g") auto
  show ?thesis
  proof (cases "(t0, t1, t2) \<noteq> c \<and> t0 < n0 \<and> t1 < n1 \<and> t2 < n2")
    case False
    with run st show ?thesis
      unfolding t s by (auto simp: n split: if_splits)
  next
    case True
    with run obtain r where r: "calcNearestPointInGridCell g q (t0, t1, t2) = Inr r"
      unfolding t s by (auto simp: n fbind_def split: sum.splits)
    show ?thesis
    proof (cases r)
      case None
      with run True r st show ?thesis
        unfolding t s by (auto simp: n fbind_def split: if_splits)
    next
      case (Some dp)
      obtain d' p' where dp: "dp = (d', p')" by (cases dp) auto
      from calcNearestPointInGridCell_Some [OF r [unfolded Some dp]]
      have "d' = sqrDist p' q" "p' \<in> set pnts"
        using well_formed_bucket_points [OF wf] by blast+
      with run True r st show ?thesis
        unfolding t s Some dp by (auto simp: n fbind_def candidate_def split: if_splits)
    qed
  qed
qed

lemma ring_pass_candidate:
  assumes wf: "well_formed g pnts"
    and run: "ring_pass g q c offset st = Inr st'" and st: "candidate pnts q st"
  shows "candidate pnts q st'"
proof -
  obtain c0 c1 c2 where c: "c = (c0, c1, c2)" by (cases c) auto
  have i1: "for_each (\<lambda>k. ring_cell g q c (i, j, k)) ks s = Inr s' \<Longrightarrow>
      candidate pnts q s \<Longrightarrow> candidate pnts q s'" for i j ks s s'
    by (rule for_each_invariant [where f = "\<lambda>k. ring_cell g q c (i, j, k)"])
      (erule ring_cell_candidate [OF wf])
  have i2: "for_each (\<lambda>j. for_each (\<lambda>k. ring_cell g q c (i, j, k)) ks) js s = Inr s' \<Longrightarrow>
      candidate pnts q s \<Longrightarrow> candidate pnts q s'" for i js ks s s'
    by (rule for_each_invariant [where f = "\<lambda>j. for_each (\<lambda>k. ring_cell g q c (i, j, k)) ks"])
      (erule i1)
  have i3: "for_each (\<lambda>i. for_each (\<lambda>j. for_each (\<lambda>k. ring_cell g q c (i, j, k)) ks) js) is s
      = Inr s' \<Longrightarrow> candidate pnts q s \<Longrightarrow> candidate pnts q s'" for "is" js ks s s'
    by (rule for_each_invariant
        [where f = "\<lambda>i. for_each (\<lambda>j. for_each (\<lambda>k. ring_cell g q c (i, j, k)) ks) js"])
      (erule i2)
  from run st show ?thesis
    unfolding c ring_pass.simps by (rule i3 [unfolded c])
qed

lemma ring_search_candidate:
  assumes "ring_search g q c offset st = Some y"
  shows "well_formed g pnts \<longrightarrow> candidate pnts q st \<longrightarrow>
    (\<forall>d p. y = Inr (d, p) \<longrightarrow> p \<in> set pnts \<and> d = sqrDist p q)"
  using assms
proof (induction g q c offset st y rule: ring_search.raw_induct [rotated 1, consumes 1])
  case (1 ring_search g q c offset st y)
  show ?case
  proof (intro impI allI)
    fix d p
    assume wf: "well_formed g pnts" and st: "candidate pnts q st" and y: "y = Inr (d, p)"
    show "p \<in> set pnts \<and> d = sqrDist p q"
    proof (cases "snd st")
      case (Some p')
      with 1(2) st y show ?thesis
        by (auto simp: candidate_def)
    next
      case None
      with 1(2) y obtain st' where pass: "ring_pass g q c offset st = Inr st'"
        and rest: "ring_search g q c (sz (offset + 1)) st' = Some y"
        by (auto split: sum.splits)
      from 1(1) [OF rest] ring_pass_candidate [OF wf pass st] wf y show ?thesis
        by blast
    qed
  qed
qed

text \<open>The search of the cube around the query.\<close>

lemma search_cube_nearest:
  assumes wf: "well_formed g pnts"
    and p: "p \<in> set pnts" "d = sqrDist p q"
    and run: "search_cube g q d p = Inr p'"
  shows "p' \<in> set pnts \<and> (\<forall>r\<in>set pnts. sqrDist q p' \<le> sqrDist q r)"
proof -
  obtain x y z where q: "q = (x, y, z)" by (cases q) auto
  let ?len = "sqrt (sqrDist q p)"
  from run obtain out d' where
    cube: "getPointsWithinCube g q ?len [] = Inr out"
    and scan: "foldl (nearer_in_cube q) (d, p) out = (d', p')"
    by (auto simp: search_cube_def Let_def fbind_def split: sum.splits)
      (metis prod.collapse)
  have dq: "d = sqrDist q p"
    unfolding p(2) by (rule sqrDist_sym)
  from foldl_nearer_in_cube [OF scan dq] have
    d': "d' = sqrDist q p'" and mem: "p' \<in> set (p # out)"
    and best: "\<forall>r\<in>set (p # out). d' \<le> sqrDist q r"
    by blast+
  from getPointsWithinCube_within [OF cube] well_formed_buckets [OF wf]
  have "set out \<subseteq> set pnts"
    by auto
  with mem p(1) have "p' \<in> set pnts"
    by auto
  moreover have "sqrDist q p' \<le> sqrDist q r" if r: "r \<in> set pnts" for r
  proof (cases "sqrDist q r < sqrDist q p")
    case False
    with best d' show ?thesis by auto
  next
    case True
    obtain rx ry rz where rr: "r = (rx, ry, rz)" by (cases r) auto
    have le: "\<bar>t\<bar> \<le> ?len" if "t * t \<le> sqrDist q r" for t
    proof -
      have "\<bar>t\<bar> \<le> sqrt (sqrDist q r)"
        using that by (rule abs_le_sqrt)
      also have "\<dots> \<le> ?len"
        using True by simp
      finally show ?thesis .
    qed
    have "\<bar>x - rx\<bar> \<le> ?len"
      by (rule le) (unfold q rr, rule sqrDist_axis)
    moreover have "\<bar>y - ry\<bar> \<le> ?len"
      by (rule le) (unfold q rr, rule sqrDist_axis)
    moreover have "\<bar>z - rz\<bar> \<le> ?len"
      by (rule le) (unfold q rr, rule sqrDist_axis)
    ultimately have "x - ?len \<le> rx" "rx \<le> x + ?len" "y - ?len \<le> ry" "ry \<le> y + ?len"
      "z - ?len \<le> rz" "rz \<le> z + ?len"
      by linarith+
    with getPointsWithinCube_superset [OF wf cube [unfolded q] r [unfolded rr]]
    have "r \<in> set out"
      unfolding q rr by simp
    with best d' show ?thesis by auto
  qed
  ultimately show ?thesis by blast
qed

text \<open>
  On a well-formed grid, the point that \<^verbatim>\<open>getNearestPoint\<close> returns, when it returns
  one, is a point of the input at minimal distance from the query.
\<close>

lemma getNearestPoint_nearest:
  assumes wf: "well_formed g pnts" and run: "getNearestPoint g q = Some (Inr p)"
  shows "p \<in> set pnts \<and> (\<forall>r\<in>set pnts. sqrDist q p \<le> sqrDist q r)"
proof -
  from run obtain c where c: "getGridCoords g q = Inr c"
    by (auto simp: getNearestPoint_def split: sum.splits)
  from run c obtain found where found: "calcNearestPointInGridCell g q c = Inr found"
    by (auto simp: getNearestPoint_def split: sum.splits)
  show ?thesis
  proof (cases found)
    case None
    with run c found obtain d p1 where
      ring: "ring_search g q c 1 (sqrDist (min_pnt g) (max_pnt g), None) = Some (Inr (d, p1))"
      and cube: "search_cube g q d p1 = Inr p"
      by (auto simp: getNearestPoint_def split: option.splits sum.splits)
    have "candidate pnts q (sqrDist (min_pnt g) (max_pnt g), None)"
      by (simp add: candidate_def)
    with ring_search_candidate [OF ring, of pnts] wf have "p1 \<in> set pnts" "d = sqrDist p1 q"
      by blast+
    with wf cube show ?thesis
      by (intro search_cube_nearest)
  next
    case (Some dp)
    obtain d p1 where dp: "dp = (d, p1)" by (cases dp) auto
    from calcNearestPointInGridCell_Some [OF found [unfolded Some dp]]
    have p1: "p1 \<in> set pnts" "d = sqrDist p1 q"
      using well_formed_bucket_points [OF wf] by blast+
    obtain d0 d1 d2 d3 d4 d5 where
      dists: "getPointCellBorderDistances g q c = (d0, d1, d2, d3, d4, d5)"
      by (metis prod_cases3)
    show ?thesis
    proof (cases "sqrt d \<le> d0 \<and> sqrt d \<le> d1 \<and> sqrt d \<le> d2 \<and> sqrt d \<le> d3 \<and>
        sqrt d \<le> d4 \<and> sqrt d \<le> d5")
      case True
      with run c found have "p = p1"
        by (simp add: getNearestPoint_def Some dp dists Let_def)
      with p1 True early_return_nearest [OF wf c found [unfolded Some dp] dists]
      show ?thesis by blast
    next
      case False
      with run c found have "search_cube g q d p1 = Inr p"
        by (auto simp: getNearestPoint_def Some dp dists Let_def split: if_splits)
      with wf p1 show ?thesis
        by (intro search_cube_nearest)
    qed
  qed
qed

section \<open>The queries on the memory and on the grid\<close>

text \<open>
  The copying loop pushes the elements of the bucket in their order to a vector outside the
  grid, and changes nothing else.
\<close>

lemma for_each_snoc: "for_each f (xs @ [x]) s = fbind (for_each f xs s) (f x)"
  by (induction xs arbitrary: s) (simp_all add: fbind_def split: sum.splits)

lemma copy_pnt_loop:
  assumes a: "a < length (vectors m)"
    and idx: "idx < length (grid_quad_to_node_map (grid m))"
    and n: "n \<le> length (grid_quad_to_node_map (grid m) ! idx)"
  shows "for_each (copy_pnt idx (Vector a)) [0..<n] m =
     Inr (m\<lparr>vectors := (vectors m)
            [a := vectors m ! a @ take n (grid_quad_to_node_map (grid m) ! idx)]\<rparr>)"
  using n
proof (induction n)
  case 0
  show ?case by simp
next
  case (Suc n)
  let ?b = "grid_quad_to_node_map (grid m) ! idx"
  let ?m = "m\<lparr>vectors := (vectors m)[a := vectors m ! a @ take n ?b]\<rparr>"
  from Suc have loop: "for_each (copy_pnt idx (Vector a)) [0..<n] m = Inr ?m"
    by simp
  from Suc.prems have n: "n < length ?b"
    by simp
  then have "copy_pnt idx (Vector a) n ?m =
      Inr (m\<lparr>vectors := (vectors m)[a := vectors m ! a @ take (Suc n) ?b]\<rparr>)"
    using a idx by (simp add: copy_pnt_def fbind_def take_Suc_conv_app_nth)
  with loop show ?case
    by (simp add: for_each_snoc fbind_def)
qed

lemma copy_bucket_mem_Vector:
  assumes "a < length (vectors m)"
  shows "copy_bucket_mem coords (Vector a) m =
     fbind (copy_bucket (grid m) coords (vectors m ! a))
       (\<lambda>out. Inr (m\<lparr>vectors := (vectors m)[a := out]\<rparr>))"
  using assms copy_pnt_loop [OF assms, of "flat_index (n_steps (grid m)) coords"
      "length (grid_quad_to_node_map (grid m) ! flat_index (n_steps (grid m)) coords)"]
  by (simp add: copy_bucket_mem_def copy_bucket_def fbind_def Let_def)

text \<open>
  Called with a vector outside the grid, the cube query on the memory changes that vector
  only, into what the cube query on the grid returns for it, and runs into the same faults.
\<close>

lemma for_each_refine:
  assumes "\<And>x s. f x (M s) = fbind (f' x s) (\<lambda>t. Inr (M t))"
  shows "for_each f xs (M s) = fbind (for_each f' xs s) (\<lambda>t. Inr (M t))"
proof (induction xs arbitrary: s)
  case Nil
  show ?case by (simp add: fbind_def)
next
  case (Cons x xs)
  show ?case
    by (simp add: assms fbind_def Cons.IH split: sum.splits)
qed

lemma getPointsWithinCube_mem_Vector:
  assumes a: "a < length (vectors m)"
  shows "getPointsWithinCube_mem c half_len (Vector a) m =
     fbind (getPointsWithinCube (grid m) c half_len (vectors m ! a))
       (\<lambda>out. Inr (m\<lparr>vectors := (vectors m)[a := out]\<rparr>))"
proof -
  obtain x y z where c: "c = (x, y, z)"
    by (cases c) auto
  define M where "M out = m\<lparr>vectors := (vectors m)[a := out]\<rparr>" for out
  have M: "grid (M s) = grid m" "vectors (M s) ! a = s" "a < length (vectors (M s))"
    "(M s)\<lparr>vectors := (vectors (M s))[a := t]\<rparr> = M t" for s t
    using a by (simp_all add: M_def)
  have m: "m = M (vectors m ! a)"
    by (simp add: M_def)
  have cell: "copy_bucket_mem crd (Vector a) (M s) =
      fbind (copy_bucket (grid m) crd s) (\<lambda>t. Inr (M t))" for crd s
    using copy_bucket_mem_Vector [of a "M s" crd] by (simp add: M)
  have l2: "for_each (\<lambda>k. copy_bucket_mem (i, j, k) (Vector a)) ks (M s) =
      fbind (for_each (\<lambda>k. copy_bucket (grid m) (i, j, k)) ks s) (\<lambda>t. Inr (M t))"
    for i j ks s
    by (rule for_each_refine) (rule cell)
  have l1: "for_each (\<lambda>j. for_each (\<lambda>k. copy_bucket_mem (i, j, k) (Vector a)) ks) js (M s) =
      fbind (for_each (\<lambda>j. for_each (\<lambda>k. copy_bucket (grid m) (i, j, k)) ks) js s)
        (\<lambda>t. Inr (M t))"
    for i ks js s
    by (rule for_each_refine) (rule l2)
  have l0: "for_each (\<lambda>i. for_each (\<lambda>j. for_each (\<lambda>k. copy_bucket_mem (i, j, k) (Vector a)) ks)
        js) is (M s) =
      fbind (for_each (\<lambda>i. for_each (\<lambda>j. for_each (\<lambda>k. copy_bucket (grid m) (i, j, k)) ks)
        js) is s) (\<lambda>t. Inr (M t))"
    for ks js "is" s
    by (rule for_each_refine) (rule l1)
  have "getPointsWithinCube_mem (x, y, z) half_len (Vector a) (M (vectors m ! a)) =
     fbind (getPointsWithinCube (grid m) (x, y, z) half_len (vectors m ! a))
       (\<lambda>out. Inr (M out))"
    by (simp add: M l0 fbind_def split: sum.splits prod.splits)
  then show ?thesis
    unfolding c M_def [symmetric] by (simp add: m [symmetric])
qed

text \<open>
  \<^verbatim>\<open>getNearestPoint\<close> on the memory returns what it returns on the grid, and the memory
  it was called on.
\<close>

lemma search_cube_mem_grid:
  "search_cube_mem pnt d p m = fbind (search_cube (grid m) pnt d p) (\<lambda>r. Inr (r, m))"
proof -
  let ?m1 = "m\<lparr>vectors := vectors m @ [[]]\<rparr>"
  let ?a = "length (vectors m)"
  let ?len = "sqrt (sqrDist pnt p)"
  have cube: "getPointsWithinCube_mem pnt ?len (Vector ?a) ?m1 =
      fbind (getPointsWithinCube (grid m) pnt ?len [])
        (\<lambda>out. Inr (m\<lparr>vectors := vectors m @ [out]\<rparr>))"
    using getPointsWithinCube_mem_Vector [of ?a ?m1 pnt ?len] by simp
  show ?thesis
  proof (cases "getPointsWithinCube (grid m) pnt ?len []")
    case (Inl e)
    with cube show ?thesis
      by (simp add: search_cube_mem_def search_cube_def fbind_def)
  next
    case (Inr out)
    with cube have "getPointsWithinCube_mem pnt ?len (Vector ?a) ?m1 =
        Inr (m\<lparr>vectors := vectors m @ [out]\<rparr>)"
      by (simp add: fbind_def)
    with Inr show ?thesis
      by (simp add: search_cube_mem_def search_cube_def fbind_def)
  qed
qed

lemma getNearestPoint_mem_grid:
  "getNearestPoint_mem pnt m =
     (case getNearestPoint (grid m) pnt of
        None \<Rightarrow> None
      | Some (Inl e) \<Rightarrow> Some (Inl e)
      | Some (Inr p) \<Rightarrow> Some (Inr (p, m)))"
  by (simp add: getNearestPoint_mem_def getNearestPoint_def search_cube_mem_grid fbind_def
      Let_def split: sum.splits option.splits prod.splits)

text \<open>
  Were the vector a bucket of the grid, the grid would change: on \<open>line_x\<close>, the cube
  query with the last bucket as its output leaves two more points in that bucket.
\<close>

lemma getPointsWithinCube_mem_Bucket:
  "getPointsWithinCube_mem (1, 0, 0) 2 (Bucket 2) \<lparr>grid = line_x, vectors = []\<rparr> =
     Inr \<lparr>grid = line_x\<lparr>grid_quad_to_node_map :=
            [[(0, 0, 0), (1, 0, 0)], [], [(8, 0, 0), (0, 0, 0), (1, 0, 0)]]\<rparr>, vectors = []\<rparr>"
  by (simp add: copy_bucket_mem_def copy_pnt_def line_x_def query_defs upt_rec)

section \<open>The claims\<close>

text \<open>
  C1, \<^verbatim>\<open>getNearestPoint\<close> returns a point of the input at minimal distance from the
  query. The code does not: on the grid of the three points 0, 1 and 8 on axis 2, one
  point per cell, the query at 4 on that axis falls into the empty middle cell, the search
  around it finds no cell of the grid and the call never returns. The nearest point is
  \<open>(0, 0, 1)\<close>.
\<close>

theorem getNearestPoint_line_z_no_result:
  "Grid [(0, 0, 0), (0, 0, 1), (0, 0, 8)] 1 = Inr line_z \<and>
   getNearestPoint line_z (0, 0, 4) = None"
proof
  show "Grid [(0, 0, 0), (0, 0, 1), (0, 0, 8)] 1 = Inr line_z"
    by (rule Grid_line_z)
  have coords: "getGridCoords line_z (0, 0, 4) = Inr (0, 0, 1)"
    by (simp add: line_z_def query_defs)
  have cell: "calcNearestPointInGridCell line_z (0, 0, 4) (0, 0, 1) = Inr None"
    by (simp add: line_z_def query_defs)
  have "ring_search line_z (0, 0, 4) (0, 0, 1) 1 (d, None) = None" for d
    by (rule ring_search_flat_axis1 [where ?n0.0 = 1 and ?n2.0 = 3])
      (simp_all add: line_z_def)
  then show "getNearestPoint line_z (0, 0, 4) = None"
    by (intro getNearestPoint_no_result [OF coords cell])
qed

text \<open>
  C2, \<^verbatim>\<open>getNearestPoint\<close> terminates: the search around the cell of the query finds a
  point after finitely many steps. The code does not: on the grid of the three points 0, 1
  and 8 on axis 0, the search around the empty middle cell starts its loops on axes 1 and 2
  at \<open>0 - offset\<close>, which wraps around, so that it visits no cell for any
  \<^verbatim>\<open>offset\<close> and the \<^verbatim>\<open>while\<close> loop has no end.
\<close>

theorem ring_search_line_x_no_end:
  "Grid [(0, 0, 0), (1, 0, 0), (8, 0, 0)] 1 = Inr line_x \<and>
   getGridCoords line_x (4, 0, 0) = Inr (1, 0, 0) \<and>
   calcNearestPointInGridCell line_x (4, 0, 0) (1, 0, 0) = Inr None \<and>
   ring_search line_x (4, 0, 0) (1, 0, 0) 1 (sqrDist (min_pnt line_x) (max_pnt line_x), None)
     = None \<and>
   getNearestPoint line_x (4, 0, 0) = None"
proof -
  have coords: "getGridCoords line_x (4, 0, 0) = Inr (1, 0, 0)"
    by (simp add: line_x_def query_defs)
  have cell: "calcNearestPointInGridCell line_x (4, 0, 0) (1, 0, 0) = Inr None"
    by (simp add: line_x_def query_defs)
  have ring: "ring_search line_x (4, 0, 0) (1, 0, 0) 1 (d, None) = None" for d
    by (rule ring_search_flat_axis1 [where ?n0.0 = 3 and ?n2.0 = 1])
      (simp_all add: line_x_def)
  have "getNearestPoint line_x (4, 0, 0) = None"
    by (intro getNearestPoint_no_result [OF coords cell] ring)
  with Grid_line_x coords cell ring show ?thesis
    by (simp only: simp_thms)
qed

text \<open>
  C3, after construction the sizes of the buckets add up to the number of points. The
  code does not keep to this when the inflated corner is below a point: of the two points
  at \<open>2\<^sup>-\<^sup>5\<^sup>7\<close> and ten times that on axis 0, the second has cell 1 in a grid of one
  cell, and the constructor pushes it into the bucket array at index 1, which the array
  does not have. Nor when the points are in the plane where axis 0 is zero: the 3D formula
  gives no cell on axis 0, so that there is no bucket, and the cell counts of the other two
  axes come from zero divided by zero, which is not a number.
\<close>

theorem Grid_writes_out_of_bounds:
  "Grid [(1 / 2 ^ 57, 0, 0), (10 / 2 ^ 57, 0, 0)] 512 = Inl (OutOfBounds 1) \<and>
   Grid [(0, 0, 0), (0, 1, 0), (0, 0, 1), (0, 1, 1)] 512 = Inl NonFinite"
proof
  show "Grid [(1 / 2 ^ 57, 0, 0), (10 / 2 ^ 57, 0, 0)] 512 = Inl (OutOfBounds 1)"
    by (simp add: ctor_defs ceiling_1_256)
  show "Grid [(0, 0, 0), (0, 1, 0), (0, 0, 1), (0, 1, 1)] 512 = Inl NonFinite"
    by (rule Grid_unit_square_x)
qed

text \<open>
  C4, \<^verbatim>\<open>getPointsWithinCube\<close> gives every input point inside the cube. The code does
  not on the grid \<open>skew\<close>: its second point is in the bucket of cell \<open>(0, 1, 0)\<close>, the
  cube of half length 0 around that point resolves to cell \<open>(0, 0, 0)\<close>, and the output
  is empty. On the grid \<open>line_x\<close>, the cube around the point 8 that reaches the upper
  corner resolves its upper corner to cell 3 of 3 and the bucket array is read at index 3.
\<close>

theorem getPointsWithinCube_misses_point:
  "Grid [(1 / 2 ^ 57, 1, 0), (10 / 2 ^ 57, 0, 0)] 1 = Inr skew \<and>
   getPointsWithinCube skew (10 / 2 ^ 57, 0, 0) 0 [] = Inr [] \<and>
   Grid [(0, 0, 0), (1, 0, 0), (8, 0, 0)] 1 = Inr line_x \<and>
   getPointsWithinCube line_x (8, 0, 0) (1 / 125000) [] = Inl (OutOfBounds 3)"
proof -
  have "getPointsWithinCube skew (10 / 2 ^ 57, 0, 0) 0 [] = Inr []"
    by (simp add: skew_def query_defs)
  moreover have "getPointsWithinCube line_x (8, 0, 0) (1 / 125000) [] = Inl (OutOfBounds 3)"
    by (simp add: line_x_def query_defs)
  ultimately show ?thesis
    using Grid_line_x Grid_skew by (simp only: simp_thms)
qed

text \<open>
  C5, \<^verbatim>\<open>getGridCoords\<close> gives a cell between 0 and \<open>cell_count - 1\<close> on every axis.
  The code does not at the upper corner of the box: the coordinate is not above
  \<^verbatim>\<open>_max_pnt\<close>, so it is not clamped, and its cell on axis 0 of \<open>line_x\<close> is 3,
  where the grid has the cells 0, 1 and 2.
\<close>

theorem getGridCoords_upper_corner:
  "Grid [(0, 0, 0), (1, 0, 0), (8, 0, 0)] 1 = Inr line_x \<and>
   n_steps line_x = (3, 1, 1) \<and>
   getGridCoords line_x (max_pnt line_x) = Inr (3, 0, 0)"
proof -
  have "getGridCoords line_x (max_pnt line_x) = Inr (3, 0, 0)"
    by (simp add: line_x_def query_defs)
  moreover have "n_steps line_x = (3, 1, 1)"
    by (simp add: line_x_def)
  ultimately show ?thesis
    using Grid_line_x by (simp only: simp_thms)
qed

text \<open>
  C7, a point whose cell is outside the grid on some axis stops the construction with an
  error and is not stored. As stated this fails: for the second point of \<open>skew\<close>, whose
  cell on axis 0 is 1 of 1, the constructor writes a line to \<^verbatim>\<open>std::cout\<close>, pushes the
  point into the bucket at the flat index 1, which is the bucket of cell \<open>(0, 1, 0)\<close>,
  and returns the grid.
\<close>

theorem Grid_stores_point_outside:
  "Grid_cout [(1 / 2 ^ 57, 1, 0), (10 / 2 ^ 57, 0, 0)] 1 =
     Inr ([''error computing indices ''], skew) \<and>
   n_steps skew = (1, 2, 1) \<and>
   cell_index (10 / 2 ^ 57) (fst (min_pnt skew)) (fst (inverse_step_sizes skew)) = Inr 1 \<and>
   grid_quad_to_node_map skew ! flat_index (n_steps skew) (0, 1, 0) =
     [(1 / 2 ^ 57, 1, 0), (10 / 2 ^ 57, 0, 0)]"
proof -
  have "cell_index (10 / 2 ^ 57) (fst (min_pnt skew)) (fst (inverse_step_sizes skew)) = Inr 1"
    by (simp add: skew_def cell_index_def to_size_t_def)
  moreover have "grid_quad_to_node_map skew ! flat_index (n_steps skew) (0, 1, 0) =
      [(1 / 2 ^ 57, 1, 0), (10 / 2 ^ 57, 0, 0)]"
    by (simp add: skew_def sz_def)
  moreover have "n_steps skew = (1, 2, 1)"
    by (simp add: skew_def)
  ultimately show ?thesis
    using Grid_cout_skew by (simp only: simp_thms)
qed

text \<open>
  C7 as amended: the constructor reports a point whose cell is outside the grid by a line
  on \<^verbatim>\<open>std::cout\<close> and goes on. A construction that completes has written the line
  \<^verbatim>\<open>error computing indices\<close> once for every such point, and nothing else.
\<close>

theorem Grid_cout_messages:
  assumes "Grid_cout pnts m = Inr (cout, g)"
  shows "cout =
    replicate (length (filter (outside (min_pnt g) (inverse_step_sizes g) (n_steps g)) pnts))
      ''error computing indices ''"
proof -
  from assms obtain n where
    "for_each (\<lambda>p s. fill_pnt (min_pnt g) (inverse_step_sizes g) (n_steps g) s p) pnts
       ([], replicate n []) = Inr (cout, grid_quad_to_node_map g)"
    by (rule Grid_cout_fill)
  from fill_cout [OF this] show ?thesis
    by simp
qed

theorem Grid_cout_messages_witness:
  "Grid_cout [(1 / 2 ^ 57, 1, 0), (10 / 2 ^ 57, 0, 0)] 1 =
     Inr ([''error computing indices ''], skew) \<and>
   length (filter (outside (min_pnt skew) (inverse_step_sizes skew) (n_steps skew))
     [(1 / 2 ^ 57, 1, 0), (10 / 2 ^ 57, 0, 0)]) = 1"
proof -
  let ?k = "length (filter (outside (min_pnt skew) (inverse_step_sizes skew) (n_steps skew))
     [(1 / 2 ^ 57, 1, 0), (10 / 2 ^ 57, 0, 0)])"
  from Grid_cout_messages [OF Grid_cout_skew]
  have "replicate ?k ''error computing indices '' = [''error computing indices '']"
    by simp
  then have "length (replicate ?k ''error computing indices '') = 1"
    by (simp only: list.size)
  then have "?k = 1"
    by (simp only: length_replicate)
  with Grid_cout_skew show ?thesis
    by (simp only: simp_thms)
qed

text \<open>
  C8, \<^verbatim>\<open>getPointCellBorderDistances\<close> gives the distances from the point to the six
  planes of the cell. The code adds \<open>coords[k] * step[k]\<close> where the distance subtracts it:
  in cell 1 of \<open>line_x\<close> the point at 4 is about 1.33 from the left and from the right
  plane, and the code gives about 6.67 for the left plane and \<open>- 4\<close> for the right one.
\<close>

theorem getPointCellBorderDistances_line_x:
  "getGridCoords line_x (4, 0, 0) = Inr (1, 0, 0) \<and>
   getPointCellBorderDistances line_x (4, 0, 0) (1, 0, 0) = (0, 0, - 4, 0, 2500001 / 375000, 0) \<and>
   cell_plane_distances line_x (4, 0, 0) (1, 0, 0) = (0, 0, 500002 / 375000, 0, 499999 / 375000, 0)"
  by (simp add: line_x_def query_defs)

text \<open>
  C6, points on a line along one axis, the other two coordinates constant, give the cell
  count \<open>[ceil(n_points / target_density), 1, 1]\<close> or its permutation. As stated this
  fails: the upper corner is moved up by a millionth of its size, so the constant of a
  million gives its axis the extent one, and two points on a line along axis 0 at a million
  on the other axes get two cells on every axis, where the claim has \<open>[2, 1, 1]\<close>. And
  an axis along which the points differ by less than epsilon counts as one without extent:
  two points on axis 1 that are \<open>2\<^sup>-\<^sup>5\<^sup>7\<close> apart get the two cells on axis 0, where the
  claim has \<open>[1, 2, 1]\<close>.
\<close>

theorem Grid_line_n_steps_differ:
  "Grid [(0, 10 ^ 6, 10 ^ 6), (1, 10 ^ 6, 10 ^ 6)] 1 = Inr far_line \<and>
   n_steps far_line = (2, 2, 2) \<and>
   Grid [(0, 0, 0), (0, 1 / 2 ^ 57, 0)] 1 = Inr short_line \<and>
   n_steps short_line = (2, 1, 1)"
proof -
  have "n_steps far_line = (2, 2, 2)"
    by (simp add: far_line_def)
  moreover have "n_steps short_line = (2, 1, 1)"
    by (simp add: short_line_def)
  ultimately show ?thesis
    using Grid_far_line Grid_short_line by (simp only: simp_thms)
qed

text \<open>
  C6 as amended: when all points are on a line along one axis, the two constant coordinates
  give flat axes (the extent of the inflated box on them is below epsilon) and, for a line
  along axis 1 or 2, the extent of the box on that axis is not below epsilon, a
  construction that completes has \<open>ceil(n_points / target_density)\<close> cells on the axis
  of the line and one cell on the other two.
\<close>

theorem Grid_on_line_n_steps:
  assumes "Grid pnts m = Inr g"
    and "list_all (on_line k c d) pnts"
    and "flat c" and "flat d"
    and "k = Axis0 \<or> \<not> degenerate (extent k g)"
  shows "n_steps g = along k (nat \<lceil>real (length pnts) / real m\<rceil>)"
proof -
  from assms(1) obtain a0 a1 a2 b0 b1 b2 where
    box: "AABB pnts = Inr ((a0, a1, a2), (b0, b1, b2))"
    and mn: "min_pnt g = (a0, a1, a2)"
    and mx: "max_pnt g = (inflate a0 b0, inflate a1 b1, inflate a2 b2)"
    and n: "calc_n_steps (length pnts) m
        (inflate a0 b0 - a0, inflate a1 b1 - a1, inflate a2 b2 - a2) = Inr (n_steps g)"
    by (rule Grid_Inr_fields)
  from box obtain p ps where pnts: "pnts = p # ps"
    and fold: "foldl update (p, p) ps = ((a0, a1, a2), (b0, b1, b2))"
    by (auto simp: AABB_def split: list.splits)
  from assms(2) have on: "\<forall>q\<in>set (p # ps). on_line k c d q"
    by (simp add: pnts list_all_iff)
  from assms(3,4) have fl: "degenerate (inflate c c - c)" "degenerate (inflate d d - d)"
    by (simp_all add: flat_def)
  show ?thesis
  proof (cases k)
    case Axis0
    with on have "\<forall>q\<in>set (p # ps). fst (snd q) = c" "\<forall>q\<in>set (p # ps). snd (snd q) = d"
      by (auto simp: on_line_proj)
    with foldl_update_const1 [of ps c "(p, p)"] foldl_update_const2 [of ps d "(p, p)"] fold
    have "a1 = c" "b1 = c" "a2 = d" "b2 = d"
      by auto
    with n fl have "fbind (cells_1d (length pnts) m) (\<lambda>c. Inr (c, 1, 1)) = Inr (n_steps g)"
      by simp
    then show ?thesis
      using Axis0 by (auto simp: fbind_def split: sum.splits dest: cells_1d_Inr)
  next
    case Axis1
    with on have "\<forall>q\<in>set (p # ps). fst q = c" "\<forall>q\<in>set (p # ps). snd (snd q) = d"
      by (auto simp: on_line_proj)
    with foldl_update_const0 [of ps c "(p, p)"] foldl_update_const2 [of ps d "(p, p)"] fold
    have z: "a0 = c" "b0 = c" "a2 = d" "b2 = d"
      by auto
    from Axis1 assms(5) mn mx have "\<not> degenerate (inflate a1 b1 - a1)"
      by simp
    with n z fl have "fbind (cells_1d (length pnts) m) (\<lambda>c. Inr (1, c, 1)) = Inr (n_steps g)"
      by simp
    then show ?thesis
      using Axis1 by (auto simp: fbind_def split: sum.splits dest: cells_1d_Inr)
  next
    case Axis2
    with on have "\<forall>q\<in>set (p # ps). fst q = c" "\<forall>q\<in>set (p # ps). fst (snd q) = d"
      by (auto simp: on_line_proj)
    with foldl_update_const0 [of ps c "(p, p)"] foldl_update_const1 [of ps d "(p, p)"] fold
    have z: "a0 = c" "b0 = c" "a1 = d" "b1 = d"
      by auto
    from Axis2 assms(5) mn mx have "\<not> degenerate (inflate a2 b2 - a2)"
      by simp
    with n z fl have "fbind (cells_1d (length pnts) m) (\<lambda>c. Inr (1, 1, c)) = Inr (n_steps g)"
      by simp
    then show ?thesis
      using Axis2 by (auto simp: fbind_def split: sum.splits dest: cells_1d_Inr)
  qed
qed

theorem Grid_on_line_n_steps_witness:
  "Grid [(1 / 10 ^ 12, 0, 1 / 10 ^ 12), (1 / 10 ^ 12, 1, 1 / 10 ^ 12)] 1 = Inr near_line \<and>
   list_all (on_line Axis1 (1 / 10 ^ 12) (1 / 10 ^ 12))
     [(1 / 10 ^ 12, 0, 1 / 10 ^ 12), (1 / 10 ^ 12, 1, 1 / 10 ^ 12)] \<and>
   flat (1 / 10 ^ 12) \<and>
   \<not> degenerate (extent Axis1 near_line) \<and>
   n_steps near_line = (1, 2, 1)"
proof -
  have on: "list_all (on_line Axis1 (1 / 10 ^ 12) (1 / 10 ^ 12))
      [(1 / 10 ^ 12, 0, 1 / 10 ^ 12), (1 / 10 ^ 12, 1, 1 / 10 ^ 12)]"
    by simp
  have fl: "flat (1 / 10 ^ 12)"
    by (simp add: flat_def degenerate_def inflate_def DBL_EPSILON_def)
  have ext: "\<not> degenerate (extent Axis1 near_line)"
    by (simp add: near_line_def degenerate_def DBL_EPSILON_def)
  then have "Axis1 = Axis0 \<or> \<not> degenerate (extent Axis1 near_line)"
    by simp
  from Grid_on_line_n_steps [OF Grid_near_line on fl fl this]
  have "n_steps near_line = (1, 2, 1)"
    by simp
  with Grid_near_line on fl ext show ?thesis
    by (simp only: simp_thms)
qed

text \<open>
  C9, a query leaves the grid as it was, and the same query asked again gives the same
  result. \<^verbatim>\<open>getNearestPoint\<close> leaves the whole memory as it was.
  \<^verbatim>\<open>getPointsWithinCube\<close>, called with a vector outside the grid, leaves the grid as
  it was and writes to that vector only; its result is what it appends there, and the
  second call appends the same points again.
\<close>

theorem queries_leave_grid:
  "(getNearestPoint_mem pnt m = Some (Inr (p, m1)) \<longrightarrow>
      m1 = m \<and> getNearestPoint_mem pnt m1 = Some (Inr (p, m1))) \<and>
   (a < length (vectors m) \<and> getPointsWithinCube_mem c half_len (Vector a) m = Inr m2 \<longrightarrow>
      grid m2 = grid m \<and>
      (\<exists>res. vectors m2 = (vectors m)[a := vectors m ! a @ res] \<and>
         getPointsWithinCube_mem c half_len (Vector a) m2 =
           Inr (m2\<lparr>vectors := (vectors m2)[a := vectors m2 ! a @ res]\<rparr>)))"
proof (intro conjI impI)
  assume "getNearestPoint_mem pnt m = Some (Inr (p, m1))"
  then have "m1 = m" "getNearestPoint_mem pnt m = Some (Inr (p, m))"
    by (auto simp: getNearestPoint_mem_grid split: option.splits sum.splits)
  then show "m1 = m" "getNearestPoint_mem pnt m1 = Some (Inr (p, m1))"
    by simp_all
next
  assume "a < length (vectors m) \<and> getPointsWithinCube_mem c half_len (Vector a) m = Inr m2"
  then have a: "a < length (vectors m)"
    and run: "getPointsWithinCube_mem c half_len (Vector a) m = Inr m2"
    by simp_all
  from run getPointsWithinCube_mem_Vector [OF a, of c half_len]
  obtain out where out: "getPointsWithinCube (grid m) c half_len (vectors m ! a) = Inr out"
    and m2: "m2 = m\<lparr>vectors := (vectors m)[a := out]\<rparr>"
    by (auto simp: fbind_def split: sum.splits)
  from out getPointsWithinCube_append [of "grid m" c half_len "vectors m ! a"]
  obtain res where res: "getPointsWithinCube (grid m) c half_len [] = Inr res"
    and o: "out = vectors m ! a @ res"
    by (auto simp: fbind_def split: sum.splits)
  from m2 a have g: "grid m2 = grid m" and a2: "a < length (vectors m2)"
    and v2: "vectors m2 ! a = out"
    by simp_all
  from res getPointsWithinCube_append [of "grid m" c half_len out]
  have "getPointsWithinCube (grid m) c half_len out = Inr (out @ res)"
    by (simp add: fbind_def)
  with getPointsWithinCube_mem_Vector [OF a2, of c half_len] g v2
  have again: "getPointsWithinCube_mem c half_len (Vector a) m2 =
      Inr (m2\<lparr>vectors := (vectors m2)[a := vectors m2 ! a @ res]\<rparr>)"
    by (simp add: fbind_def)
  show "grid m2 = grid m"
    by (rule g)
  from m2 o again
  show "\<exists>res. vectors m2 = (vectors m)[a := vectors m ! a @ res] \<and>
      getPointsWithinCube_mem c half_len (Vector a) m2 =
        Inr (m2\<lparr>vectors := (vectors m2)[a := vectors m2 ! a @ res]\<rparr>)"
    by (intro exI [of _ res]) simp
qed

theorem queries_leave_grid_witness:
  "getNearestPoint_mem (2, 0, 0) \<lparr>grid = line_x, vectors = [[(7, 7, 7)]]\<rparr> =
     Some (Inr ((1, 0, 0), \<lparr>grid = line_x, vectors = [[(7, 7, 7)]]\<rparr>)) \<and>
   getPointsWithinCube_mem (1, 0, 0) 2 (Vector 0) \<lparr>grid = line_x, vectors = [[(7, 7, 7)]]\<rparr> =
     Inr \<lparr>grid = line_x, vectors = [[(7, 7, 7), (0, 0, 0), (1, 0, 0)]]\<rparr> \<and>
   getPointsWithinCube_mem (1, 0, 0) 2 (Vector 0)
       \<lparr>grid = line_x, vectors = [[(7, 7, 7), (0, 0, 0), (1, 0, 0)]]\<rparr> =
     Inr \<lparr>grid = line_x, vectors = [[(7, 7, 7), (0, 0, 0), (1, 0, 0), (0, 0, 0), (1, 0, 0)]]\<rparr>"
proof -
  let ?m = "\<lparr>grid = line_x, vectors = [[(7, 7, 7)]]\<rparr>"
  let ?m2 = "\<lparr>grid = line_x, vectors = [[(7, 7, 7), (0, 0, 0), (1, 0, 0)]]\<rparr>"
  have near: "getNearestPoint_mem (2, 0, 0) ?m = Some (Inr ((1, 0, 0), ?m))"
    by (simp add: getNearestPoint_mem_def search_cube_mem_def nearer_in_cube_def
        copy_bucket_mem_def copy_pnt_def line_x_def query_defs upt_rec)
  have cube: "getPointsWithinCube_mem (1, 0, 0) 2 (Vector 0) ?m = Inr ?m2"
    by (simp add: copy_bucket_mem_def copy_pnt_def line_x_def query_defs upt_rec)
  from queries_leave_grid [of "(2, 0, 0)" ?m "(1, 0, 0)" ?m 0 "(1, 0, 0)" 2 ?m2] near cube
  have "getPointsWithinCube_mem (1, 0, 0) 2 (Vector 0) ?m2 =
      Inr \<lparr>grid = line_x, vectors = [[(7, 7, 7), (0, 0, 0), (1, 0, 0), (0, 0, 0), (1, 0, 0)]]\<rparr>"
    by auto
  with near cube show ?thesis
    by (simp only: simp_thms)
qed

text \<open>
  C10, \<^verbatim>\<open>getPointsWithinCube\<close> appends to the output vector: what the vector held
  stays at its front, unchanged and in its order, and the points of the query follow. The
  points appended, and whether the call runs into a fault, do not depend on what the
  vector held.
\<close>

theorem getPointsWithinCube_keeps_prefix:
  "getPointsWithinCube g pnt half_len pnts =
     (case getPointsWithinCube g pnt half_len [] of
        Inl e \<Rightarrow> Inl e
      | Inr res \<Rightarrow> Inr (pnts @ res))"
  using getPointsWithinCube_append [of g pnt half_len pnts] by (simp add: fbind_def)

end
